theory Spec2Isabelle
  imports Complex_Main "HOL-Library.Sublist"
begin

section \<open>JavaScript values and the operators the program applies to them\<close>

text \<open>
  The program is JavaScript: an entity record (a "boat") and a threshold configuration are
  objects whose fields hold arbitrary values, and every comparison coerces its operands.
  The fields are modelled by the primitive values of the language. A finite number is the
  rational it denotes (every double is one), so comparison and \<open>toFixed\<close> are exact; a
  sum, a quotient and the value of a numeric text are rounded to the nearest double, as
  the arithmetic of the language does. The two zeros are not told apart. A text is a list
  of code units below 256.
\<close>

datatype jsnum = NaN | PosInf | NegInf | Fin rat

datatype jsval = JUndefined | JNull | JBool bool | JNum jsnum | JStr string

abbreviation num :: "rat \<Rightarrow> jsval" where
  "num q \<equiv> JNum (Fin q)"

datatype error = TypeError

subsection \<open>Rounding to a double\<close>

text \<open>
  \<open>floor_log2 n\<close> is the position of the leading bit of a positive integer, and
  \<open>binary_exponent q\<close> the exponent \<open>e\<close> with \<open>2^e \<le> |q| < 2^(e+1)\<close> of a rational other
  than 0.
\<close>

function floor_log2 :: "int \<Rightarrow> int" where
  "floor_log2 n = (if n < 2 then 0 else 1 + floor_log2 (n div 2))"
  by auto

termination
  by (relation "measure nat") auto

declare floor_log2.simps [simp del]

definition pow2 :: "int \<Rightarrow> rat" where
  "pow2 e = (if 0 \<le> e then 2 ^ nat e else 1 / 2 ^ nat (- e))"

definition binary_exponent :: "rat \<Rightarrow> int" where
  "binary_exponent q =
     (let c = floor_log2 (fst (quotient_of \<bar>q\<bar>)) - floor_log2 (snd (quotient_of \<bar>q\<bar>))
      in if pow2 c \<le> \<bar>q\<bar> then c else c - 1)"

definition round_half_even :: "rat \<Rightarrow> int" where
  "round_half_even m =
     (let f = \<lfloor>m\<rfloor>; r = m - of_int f
      in if r < 1 / 2 then f else if 1 / 2 < r then f + 1 else if even f then f else f + 1)"

text \<open>
  The binary64 value nearest to a rational, ties to the even significand: the multiple of
  the spacing \<open>2^(max e (-1022) - 52)\<close> nearest to it, or an infinity when that is
  \<open>2^1024\<close> or more in size.
\<close>

definition to_double :: "rat \<Rightarrow> jsnum" where
  "to_double q =
     (if q = 0 then Fin 0
      else if 1024 \<le> binary_exponent q then (if 0 < q then PosInf else NegInf)
      else let ulp = pow2 (max (binary_exponent q) (- 1022) - 52);
               r = of_int (round_half_even (q / ulp)) * ulp
           in if binary_exponent r < 1024 then Fin r
              else if 0 < q then PosInf else NegInf)"

subsection \<open>Numbers to text\<close>

fun dec :: "nat \<Rightarrow> string" where
  "dec n = (if n < 10 then [''0123456789'' ! n]
            else dec (n div 10) @ [''0123456789'' ! (n mod 10)])"

declare dec.simps [simp del]

text \<open>
  \<open>Number.prototype.toFixed\<close> on a value \<open>0 \<le> q < 10^21\<close>: the integer \<open>n\<close> for which
  \<open>n / 10^d\<close> is closest to \<open>q\<close> (the larger one on a tie), written with \<open>d\<close> digits after
  the point.
\<close>

definition fixed_digits :: "nat \<Rightarrow> rat \<Rightarrow> string" where
  "fixed_digits d q =
     (let n = nat \<lfloor>q * 10 ^ d + 1 / 2\<rfloor>;
          m = dec n;
          m' = replicate (Suc d - length m) (CHR ''0'') @ m
      in if d = 0 then m
         else take (length m' - d) m' @ ''.'' @ drop (length m' - d) m')"

fun frac_digits :: "nat \<Rightarrow> rat \<Rightarrow> string" where
  "frac_digits 0 r = []"
| "frac_digits (Suc n) r =
     (if r = 0 then []
      else (''0123456789'' ! nat \<lfloor>r * 10\<rfloor>) # frac_digits n (r * 10 - of_int \<lfloor>r * 10\<rfloor>))"

text \<open>
  \<open>Number::toString\<close> in positional notation: exact for an integer below \<open>10^21\<close> and for
  a decimal fraction of at most 20 places, which is what a count or a percentage read from
  a report is. (The language switches to exponent notation outside \<open>[10^-6, 10^21)\<close> and
  prints the shortest digits that read back as the same double; those texts are not
  reproduced.)
\<close>

definition unsigned_to_string :: "rat \<Rightarrow> string" where
  "unsigned_to_string q =
     (let i = \<lfloor>q\<rfloor>; f = q - of_int i
      in if f = 0 then dec (nat i) else dec (nat i) @ ''.'' @ frac_digits 20 f)"

fun number_to_string :: "jsnum \<Rightarrow> string" where
  "number_to_string NaN = ''NaN''"
| "number_to_string PosInf = ''Infinity''"
| "number_to_string NegInf = ''-Infinity''"
| "number_to_string (Fin q) =
     (if q < 0 then ''-'' @ unsigned_to_string (- q) else unsigned_to_string q)"

fun toFixed :: "nat \<Rightarrow> jsnum \<Rightarrow> string" where
  "toFixed d (Fin q) =
     (if 10 ^ 21 \<le> \<bar>q\<bar> then number_to_string (Fin q)
      else if q < 0 then ''-'' @ fixed_digits d (- q)
      else fixed_digits d q)"
| "toFixed d x = number_to_string x"

text \<open>
  The method call \<open>v.toFixed(d)\<close>: only a number has the method; on \<open>null\<close> and
  \<open>undefined\<close> the property read throws, on a string or a boolean the call does
  ("toFixed is not a function").
\<close>

definition call_toFixed :: "jsval \<Rightarrow> nat \<Rightarrow> error + string" where
  "call_toFixed v d = (case v of JNum x \<Rightarrow> Inr (toFixed d x) | _ \<Rightarrow> Inl TypeError)"

fun to_string :: "jsval \<Rightarrow> string" where
  "to_string JUndefined = ''undefined''"
| "to_string JNull = ''null''"
| "to_string (JBool b) = (if b then ''true'' else ''false'')"
| "to_string (JNum x) = number_to_string x"
| "to_string (JStr s) = s"

subsection \<open>Text to numbers\<close>

definition is_digit :: "char \<Rightarrow> bool" where
  "is_digit c = (c \<in> set ''0123456789'')"

definition is_space :: "char \<Rightarrow> bool" where
  "is_space c = (c \<in> set [CHR 0x09, CHR 0x0A, CHR 0x0B, CHR 0x0C, CHR 0x0D, CHR '' '', CHR 0xA0])"

definition trim :: "string \<Rightarrow> string" where
  "trim s = rev (dropWhile is_space (rev (dropWhile is_space s)))"

fun index_of :: "char \<Rightarrow> string \<Rightarrow> nat" where
  "index_of c [] = 0"
| "index_of c (x # xs) = (if c = x then 0 else Suc (index_of c xs))"

definition digit_value :: "char \<Rightarrow> nat" where
  "digit_value c =
     (if c \<in> set ''ABCDEF'' then 10 + index_of c ''ABCDEF''
      else index_of c ''0123456789abcdef'')"

definition digits_value :: "nat \<Rightarrow> string \<Rightarrow> nat" where
  "digits_value b ds = foldl (\<lambda>a c. b * a + digit_value c) 0 ds"

text \<open>A leading sign, and the text after it.\<close>

definition negative :: "string \<Rightarrow> bool" where
  "negative u = (case u of [] \<Rightarrow> False | c # r \<Rightarrow> c = CHR ''-'')"

definition strip_sign :: "string \<Rightarrow> string" where
  "strip_sign u =
     (case u of [] \<Rightarrow> [] | c # r \<Rightarrow> if c = CHR ''-'' \<or> c = CHR ''+'' then r else u)"

text \<open>The exponent part of a decimal literal: nothing, or \<open>e\<close> and a signed integer.\<close>

definition exponent_part :: "string \<Rightarrow> int option" where
  "exponent_part r =
     (case r of
        [] \<Rightarrow> Some 0
      | c # r' \<Rightarrow>
          if (c = CHR ''e'' \<or> c = CHR ''E'') \<and> strip_sign r' \<noteq> [] \<and>
             list_all is_digit (strip_sign r')
          then Some (if negative r' then - int (digits_value 10 (strip_sign r'))
                     else int (digits_value 10 (strip_sign r')))
          else None)"

text \<open>The text after a decimal point, if the text starts with one.\<close>

definition after_point :: "string \<Rightarrow> string option" where
  "after_point r = (case r of [] \<Rightarrow> None | c # r' \<Rightarrow> if c = CHR ''.'' then Some r' else None)"

definition scale10 :: "rat \<Rightarrow> int \<Rightarrow> rat" where
  "scale10 m e = (if 0 \<le> e then m * 10 ^ nat e else m / 10 ^ nat (- e))"

definition unsigned_decimal :: "string \<Rightarrow> rat option" where
  "unsigned_decimal s =
     (let ip = takeWhile is_digit s;
          r1 = dropWhile is_digit s;
          fp = (case after_point r1 of None \<Rightarrow> [] | Some r \<Rightarrow> takeWhile is_digit r);
          r2 = (case after_point r1 of None \<Rightarrow> r1 | Some r \<Rightarrow> dropWhile is_digit r)
      in if ip = [] \<and> fp = [] then None
         else case exponent_part r2 of
                None \<Rightarrow> None
              | Some e \<Rightarrow>
                  Some (scale10 (of_nat (digits_value 10 ip) +
                                 of_nat (digits_value 10 fp) / 10 ^ length fp) e))"

definition radix_base :: "char \<Rightarrow> nat" where
  "radix_base c =
     (if c = CHR ''x'' \<or> c = CHR ''X'' then 16
      else if c = CHR ''o'' \<or> c = CHR ''O'' then 8
      else if c = CHR ''b'' \<or> c = CHR ''B'' then 2
      else 0)"

definition radix_literal :: "string \<Rightarrow> rat option" where
  "radix_literal u =
     (case u of
        c0 # c # ds \<Rightarrow>
          if c0 = CHR ''0'' \<and> radix_base c \<noteq> 0 \<and> ds \<noteq> [] \<and>
             list_all (\<lambda>d. digit_value d < radix_base c) ds
          then Some (of_nat (digits_value (radix_base c) ds))
          else None
      | _ \<Rightarrow> None)"

text \<open>
  \<open>StringToNumber\<close>: surrounding white space is dropped, the empty text is \<open>0\<close>, then a
  radix literal, or a signed decimal literal or \<open>Infinity\<close>; anything else is \<open>NaN\<close>. The
  value of a literal is rounded to a double.
\<close>

definition string_to_number :: "string \<Rightarrow> jsnum" where
  "string_to_number s =
     (let u = trim s in
      if u = [] then Fin 0
      else case radix_literal u of
        Some q \<Rightarrow> to_double q
      | None \<Rightarrow>
          if strip_sign u = ''Infinity'' then (if negative u then NegInf else PosInf)
          else case unsigned_decimal (strip_sign u) of
                 None \<Rightarrow> NaN
               | Some q \<Rightarrow> to_double (if negative u then - q else q))"

fun to_number :: "jsval \<Rightarrow> jsnum" where
  "to_number JUndefined = NaN"
| "to_number JNull = Fin 0"
| "to_number (JBool b) = Fin (if b then 1 else 0)"
| "to_number (JNum x) = x"
| "to_number (JStr s) = string_to_number s"

subsection \<open>Truthiness, the logical operators, comparison\<close>

fun truthy :: "jsval \<Rightarrow> bool" where
  "truthy JUndefined = False"
| "truthy JNull = False"
| "truthy (JBool b) = b"
| "truthy (JNum NaN) = False"
| "truthy (JNum (Fin q)) = (q \<noteq> 0)"
| "truthy (JNum x) = True"
| "truthy (JStr s) = (s \<noteq> [])"

definition js_or :: "jsval \<Rightarrow> jsval \<Rightarrow> jsval" where
  "js_or a b = (if truthy a then a else b)"

definition js_and :: "jsval \<Rightarrow> jsval \<Rightarrow> jsval" where
  "js_and a b = (if truthy a then b else a)"

definition js_nullish :: "jsval \<Rightarrow> jsval \<Rightarrow> jsval" where
  "js_nullish a b = (if a = JNull \<or> a = JUndefined then b else a)"

fun num_lt :: "jsnum \<Rightarrow> jsnum \<Rightarrow> bool" where
  "num_lt NaN y = False"
| "num_lt x NaN = False"
| "num_lt PosInf y = False"
| "num_lt x NegInf = False"
| "num_lt NegInf y = True"
| "num_lt x PosInf = True"
| "num_lt (Fin a) (Fin b) = (a < b)"

fun str_lt :: "string \<Rightarrow> string \<Rightarrow> bool" where
  "str_lt [] [] = False"
| "str_lt [] (d # ds) = True"
| "str_lt (c # cs) [] = False"
| "str_lt (c # cs) (d # ds) =
     ((of_char c :: nat) < of_char d \<or> (c = d \<and> str_lt cs ds))"

text \<open>
  The relational operators: two strings compare as texts, any other pair as numbers, and
  a comparison with \<open>NaN\<close> is false whichever way it is asked.
\<close>

definition js_lt :: "jsval \<Rightarrow> jsval \<Rightarrow> bool" where
  "js_lt a b =
     (case a of
        JStr s \<Rightarrow> (case b of JStr u \<Rightarrow> str_lt s u | _ \<Rightarrow> num_lt (to_number a) (to_number b))
      | _ \<Rightarrow> num_lt (to_number a) (to_number b))"

definition js_gt :: "jsval \<Rightarrow> jsval \<Rightarrow> bool" where
  "js_gt a b = js_lt b a"

definition comparable :: "jsval \<Rightarrow> jsval \<Rightarrow> bool" where
  "comparable a b =
     (case a of
        JStr s \<Rightarrow> (case b of JStr u \<Rightarrow> True | _ \<Rightarrow> to_number a \<noteq> NaN \<and> to_number b \<noteq> NaN)
      | _ \<Rightarrow> to_number a \<noteq> NaN \<and> to_number b \<noteq> NaN)"

definition js_le :: "jsval \<Rightarrow> jsval \<Rightarrow> bool" where
  "js_le a b = (comparable a b \<and> \<not> js_lt b a)"

definition js_ge :: "jsval \<Rightarrow> jsval \<Rightarrow> bool" where
  "js_ge a b = (comparable a b \<and> \<not> js_lt a b)"

text \<open>\<open>hay.includes(needle)\<close>.\<close>

fun str_includes :: "string \<Rightarrow> string \<Rightarrow> bool" where
  "str_includes [] needle = (needle = [])"
| "str_includes (c # cs) needle = (prefix needle (c # cs) \<or> str_includes cs needle)"

section \<open>Threshold configuration\<close>

text \<open>
  A configuration is an object read by key; a key that is not there reads as
  \<open>undefined\<close>. The parameter itself may be \<open>undefined\<close> (left out) or \<open>null\<close>.
\<close>

type_synonym jsobject = "string \<rightharpoonup> jsval"

datatype config = CUndefined | CNull | CObj jsobject

definition js_get :: "jsobject \<Rightarrow> string \<Rightarrow> jsval" where
  "js_get t k = (case t k of None \<Rightarrow> JUndefined | Some v \<Rightarrow> v)"

definition defaultThresholds :: jsobject where
  "defaultThresholds = map_of
     [(''low_vph'', num (5 / 2)),
      (''low_scan_age_days'', num 14),
      (''low_product_compliance'', num 95),
      (''low_true_policy_compliance'', num 95),
      (''low_raw_policy_compliance'', num 95),
      (''low_tam_past_due'', num 5),
      (''med_ra_vph'', num (7 / 2)),
      (''med_ess_compliance'', num 95),
      (''med_scan_age_days'', num 14),
      (''med_tam_past_due'', num 10),
      (''med_true_policy_compliance'', num 95),
      (''med_raw_policy_compliance'', num 0),
      (''auto_high_ra_vph'', num 999),
      (''auto_high_scan_age_days'', num 999),
      (''high_ess_compliance'', num 90),
      (''high_raw_policy_compliance'', num 0),
      (''high_product_compliance'', num 0),
      (''high_tam_past_due'', num 20),
      (''color_product_green'', num 95), (''color_product_red'', num 90),
      (''color_policy_green'', num 95), (''color_policy_red'', num 90),
      (''color_policy_raw_green'', num 95), (''color_policy_raw_red'', num 90),
      (''color_vph_green'', num (5 / 2)), (''color_vph_red'', num (7 / 2)),
      (''color_scan_green'', num 14), (''color_scan_red'', num 14),
      (''hq_color_product_green'', num 95), (''hq_color_product_red'', num 90),
      (''hq_color_policy_green'', num 95), (''hq_color_policy_red'', num 90),
      (''hq_color_policy_raw_green'', num 95), (''hq_color_policy_raw_red'', num 90),
      (''low_product_compliance_enabled'', num 1),
      (''low_true_policy_compliance_enabled'', num 0),
      (''low_raw_policy_compliance_enabled'', num 0),
      (''low_tam_past_due_enabled'', num 0)]"

text \<open>\<open>t.key || fallback\<close>, the form of every threshold lookup.\<close>

definition thr :: "jsobject \<Rightarrow> string \<Rightarrow> rat \<Rightarrow> jsval" where
  "thr t k d = js_or (js_get t k) (num d)"

text \<open>\<open>(t.key ?? 0) === 1\<close>, the form of every toggle lookup.\<close>

definition toggle :: "jsobject \<Rightarrow> string \<Rightarrow> bool" where
  "toggle t k = (js_nullish (js_get t k) (num 0) = num 1)"

section \<open>Entity records\<close>

text \<open>
  A scan date is used in three ways only: \<open>d !== null\<close>, \<open>!d\<close>, and
  \<open>new Date(d).getTime()\<close>. Its values are therefore \<open>null\<close>; any other falsy value
  (\<open>undefined\<close>, the empty string); a truthy value that is no date (the time value is
  \<open>NaN\<close>); and a truthy value (a \<open>Date\<close>, an ISO string) with its time value in
  milliseconds.
\<close>

datatype scandate = DateNull | DateFalsy | DateInvalid | DateAt int

record boat =
  isic :: jsval
  tycom :: jsval
  isNmci :: jsval
  essNiprBreakfix :: jsval
  essNiprProductCompliance :: jsval
  essNiprPolicyEnforced :: jsval
  essNiprTruePolicy :: jsval
  essSiprBreakfix :: jsval
  essSiprProductCompliance :: jsval
  essSiprPolicyEnforced :: jsval
  essSiprTruePolicy :: jsval
  vramNiprAssets :: jsval
  vramNiprScanDate :: scandate
  vramNiprRaVph :: jsval
  vramNiprScanExempt :: jsval
  vramSiprAssets :: jsval
  vramSiprScanDate :: scandate
  vramSiprRaVph :: jsval
  vramSiprScanExempt :: jsval
  tamPastDue :: jsval
  riskLevel :: jsval

section \<open>The risk calculator\<close>

text \<open>
  \<open>scanAge\<close> reads the clock; \<open>now\<close> is that reading in milliseconds (both reads of one
  \<open>calculateRisk\<close> call are taken at the same instant). The result is \<open>null\<close> or a number.
\<close>

definition scanAge :: "int \<Rightarrow> scandate \<Rightarrow> jsval" where
  "scanAge now d =
     (case d of
        DateAt ms \<Rightarrow>
          (let age = (now - ms) div 86400000
           in if 0 \<le> age then num (of_int age) else JNull)
      | _ \<Rightarrow> JNull)"

datatype level = LOW | MED | HIGH

record risk =
  level :: level
  reasons :: "string list"

record state = risk +
  highDueToNoScans :: bool

record med_state =
  medConditionCount :: nat
  medReasons :: "string list"

text \<open>
  The body is a sequence of guarded statements on the mutable locals. A statement is a
  function from the locals to the new locals or the exception it throws; \<open>run\<close> executes
  a sequence and stops at the first exception.
\<close>

fun run :: "('s \<Rightarrow> error + 's) list \<Rightarrow> 's \<Rightarrow> error + 's" where
  "run [] s = Inr s"
| "run (f # fs) s = (case f s of Inl e \<Rightarrow> Inl e | Inr s' \<Rightarrow> run fs s')"

definition guarded :: "bool \<Rightarrow> ('s \<Rightarrow> error + 's) list \<Rightarrow> 's \<Rightarrow> error + 's" where
  "guarded c fs s = (if c then run fs s else Inr s)"

text \<open>The template literals \<open>`pre${v}post`\<close> and \<open>`pre${v.toFixed(d)}post`\<close>.\<close>

definition shown :: "string \<Rightarrow> jsval \<Rightarrow> string \<Rightarrow> error + string" where
  "shown pre v post = Inr (pre @ to_string v @ post)"

definition fixed :: "string \<Rightarrow> jsval \<Rightarrow> nat \<Rightarrow> string \<Rightarrow> error + string" where
  "fixed pre v d post =
     (case call_toFixed v d of Inl e \<Rightarrow> Inl e | Inr x \<Rightarrow> Inr (pre @ x @ post))"

text \<open>\<open>if (c) { level = 'HIGH'; reasons.push(msg); }\<close>\<close>

definition raise_high :: "bool \<Rightarrow> error + string \<Rightarrow> state \<Rightarrow> error + state" where
  "raise_high c msg s =
     (if c then
        (case msg of Inl e \<Rightarrow> Inl e
         | Inr m \<Rightarrow> Inr (s\<lparr>level := HIGH, reasons := reasons s @ [m]\<rparr>))
      else Inr s)"

text \<open>\<open>if (c) { medConditionCount++; medReasons.push(msg); }\<close>\<close>

definition count_med :: "bool \<Rightarrow> error + string \<Rightarrow> med_state \<Rightarrow> error + med_state" where
  "count_med c msg m =
     (if c then
        (case msg of Inl e \<Rightarrow> Inl e
         | Inr x \<Rightarrow> Inr (m\<lparr>medConditionCount := Suc (medConditionCount m),
                            medReasons := medReasons m @ [x]\<rparr>))
      else Inr m)"

text \<open>\<open>if (c) reasons.push(msg);\<close>\<close>

definition push_reason :: "bool \<Rightarrow> error + string \<Rightarrow> state \<Rightarrow> error + state" where
  "push_reason c msg s =
     (if c then
        (case msg of Inl e \<Rightarrow> Inl e | Inr m \<Rightarrow> Inr (s\<lparr>reasons := reasons s @ [m]\<rparr>))
      else Inr s)"

text \<open>The tests \<open>x !== null && x < y\<close>, \<open>x !== null && x > y\<close>, \<open>x !== null && x >= y\<close>.\<close>

definition below :: "jsval \<Rightarrow> jsval \<Rightarrow> bool" where
  "below x y = (x \<noteq> JNull \<and> js_lt x y)"

definition above :: "jsval \<Rightarrow> jsval \<Rightarrow> bool" where
  "above x y = (x \<noteq> JNull \<and> js_gt x y)"

definition at_least :: "jsval \<Rightarrow> jsval \<Rightarrow> bool" where
  "at_least x y = (x \<noteq> JNull \<and> js_ge x y)"

text \<open>\<open>(x || 0) > y\<close>, the test on a count.\<close>

definition count_above :: "jsval \<Rightarrow> jsval \<Rightarrow> bool" where
  "count_above x y = js_gt (js_or x (num 0)) y"

definition is_nmci :: "boat \<Rightarrow> bool" where
  "is_nmci b = (isNmci b = JBool True)"

definition nAge :: "boat \<Rightarrow> int \<Rightarrow> jsval" where
  "nAge b now = (if is_nmci b then JNull else scanAge now (vramNiprScanDate b))"

definition sAge :: "boat \<Rightarrow> int \<Rightarrow> jsval" where
  "sAge b now = scanAge now (vramSiprScanDate b)"

definition hasNiprVramData :: "boat \<Rightarrow> bool" where
  "hasNiprVramData b =
     (if is_nmci b then True
      else (vramNiprScanDate b \<noteq> DateNull \<or> vramNiprRaVph b \<noteq> JNull \<or>
            vramNiprAssets b \<noteq> JNull))"

definition hasSiprVramData :: "boat \<Rightarrow> bool" where
  "hasSiprVramData b =
     (vramSiprScanDate b \<noteq> DateNull \<or> vramSiprRaVph b \<noteq> JNull \<or> vramSiprAssets b \<noteq> JNull)"

definition hasAnyVramData :: "boat \<Rightarrow> bool" where
  "hasAnyVramData b = (hasNiprVramData b \<or> hasSiprVramData b)"

definition no_vram :: "boat \<Rightarrow> state \<Rightarrow> error + state" where
  "no_vram b s =
     (if \<not> hasAnyVramData b \<or> (is_nmci b \<and> \<not> hasSiprVramData b)
      then Inr (s\<lparr>level := HIGH, reasons := reasons s @ [''No VRAM data''],
                  highDueToNoScans := True\<rparr>)
      else Inr s)"

text \<open>
  The HIGH triggers, in the order of the source: the two breakfix checks, the check for
  missing VRAM data, then the checks against thresholds.
\<close>

definition breakfix_checks :: "boat \<Rightarrow> (state \<Rightarrow> error + state) list" where
  "breakfix_checks b =
     [raise_high (\<not> is_nmci b \<and> count_above (essNiprBreakfix b) (num 0))
        (shown ''NIPR Breakfix: '' (essNiprBreakfix b) []),
      raise_high (count_above (essSiprBreakfix b) (num 0))
        (shown ''SIPR Breakfix: '' (essSiprBreakfix b) [])]"

definition threshold_checks :: "boat \<Rightarrow> jsobject \<Rightarrow> int \<Rightarrow> (state \<Rightarrow> error + state) list" where
  "threshold_checks b t now =
     [guarded (js_gt (thr t ''high_product_compliance'' 50) (num 0))
        [raise_high (\<not> is_nmci b \<and>
             below (essNiprProductCompliance b) (thr t ''high_product_compliance'' 50))
           (fixed ''NIPR Prod: '' (essNiprProductCompliance b) 1 ''%''),
         raise_high (below (essSiprProductCompliance b) (thr t ''high_product_compliance'' 50))
           (fixed ''SIPR Prod: '' (essSiprProductCompliance b) 1 ''%'')],
      raise_high (\<not> is_nmci b \<and> above (vramNiprRaVph b) (thr t ''auto_high_ra_vph'' 5))
        (fixed ''NIPR VPH: '' (vramNiprRaVph b) 2 []),
      raise_high (above (vramSiprRaVph b) (thr t ''auto_high_ra_vph'' 5))
        (fixed ''SIPR VPH: '' (vramSiprRaVph b) 2 []),
      raise_high (\<not> is_nmci b \<and> above (nAge b now) (thr t ''auto_high_scan_age_days'' 30))
        (shown ''NIPR Scan: '' (nAge b now) ''d''),
      raise_high (above (sAge b now) (thr t ''auto_high_scan_age_days'' 30))
        (shown ''SIPR Scan: '' (sAge b now) ''d''),
      guarded (js_gt (thr t ''high_ess_compliance'' 0) (num 0))
        [raise_high (\<not> is_nmci b \<and>
             below (essNiprTruePolicy b) (thr t ''high_ess_compliance'' 0))
           (fixed ''NIPR True Policy: '' (essNiprTruePolicy b) 1 ''%''),
         raise_high (below (essSiprTruePolicy b) (thr t ''high_ess_compliance'' 0))
           (fixed ''SIPR True Policy: '' (essSiprTruePolicy b) 1 ''%'')],
      guarded (js_gt (thr t ''high_raw_policy_compliance'' 0) (num 0))
        [raise_high (\<not> is_nmci b \<and>
             below (essNiprPolicyEnforced b) (thr t ''high_raw_policy_compliance'' 0))
           (fixed ''NIPR Raw Policy: '' (essNiprPolicyEnforced b) 1 ''%''),
         raise_high (below (essSiprPolicyEnforced b) (thr t ''high_raw_policy_compliance'' 0))
           (fixed ''SIPR Raw Policy: '' (essSiprPolicyEnforced b) 1 ''%'')],
      raise_high (count_above (tamPastDue b) (thr t ''high_tam_past_due'' 20))
        (shown ''TAMs: '' (tamPastDue b) [])]"

definition high_checks :: "boat \<Rightarrow> jsobject \<Rightarrow> int \<Rightarrow> (state \<Rightarrow> error + state) list" where
  "high_checks b t now = breakfix_checks b @ [no_vram b] @ threshold_checks b t now"

definition high_stage :: "boat \<Rightarrow> jsobject \<Rightarrow> int \<Rightarrow> state \<Rightarrow> error + state" where
  "high_stage b t now = run (high_checks b t now)"

text \<open>The MED conditions are counted; two or more make the level MED.\<close>

definition med_checks ::
  "boat \<Rightarrow> jsobject \<Rightarrow> int \<Rightarrow> (med_state \<Rightarrow> error + med_state) list" where
  "med_checks b t now =
     [count_med (\<not> is_nmci b \<and> above (vramNiprRaVph b) (thr t ''med_ra_vph'' (7 / 2)))
        (fixed ''NIPR VPH: '' (vramNiprRaVph b) 2 []),
      count_med (above (vramSiprRaVph b) (thr t ''med_ra_vph'' (7 / 2)))
        (fixed ''SIPR VPH: '' (vramSiprRaVph b) 2 []),
      count_med (\<not> is_nmci b \<and>
           below (essNiprProductCompliance b) (thr t ''med_ess_compliance'' 95))
        (fixed ''NIPR Prod: '' (essNiprProductCompliance b) 1 ''%''),
      count_med (below (essSiprProductCompliance b) (thr t ''med_ess_compliance'' 95))
        (fixed ''SIPR Prod: '' (essSiprProductCompliance b) 1 ''%''),
      guarded (js_gt (thr t ''med_true_policy_compliance'' 0) (num 0))
        [count_med (\<not> is_nmci b \<and>
             below (essNiprTruePolicy b) (thr t ''med_true_policy_compliance'' 0))
           (fixed ''NIPR True Policy: '' (essNiprTruePolicy b) 1 ''%''),
         count_med (below (essSiprTruePolicy b) (thr t ''med_true_policy_compliance'' 0))
           (fixed ''SIPR True Policy: '' (essSiprTruePolicy b) 1 ''%'')],
      guarded (js_gt (thr t ''med_raw_policy_compliance'' 0) (num 0))
        [count_med (\<not> is_nmci b \<and>
             below (essNiprPolicyEnforced b) (thr t ''med_raw_policy_compliance'' 0))
           (fixed ''NIPR Raw Policy: '' (essNiprPolicyEnforced b) 1 ''%''),
         count_med (below (essSiprPolicyEnforced b) (thr t ''med_raw_policy_compliance'' 0))
           (fixed ''SIPR Raw Policy: '' (essSiprPolicyEnforced b) 1 ''%'')],
      count_med (\<not> is_nmci b \<and> above (nAge b now) (thr t ''med_scan_age_days'' 14))
        (shown ''NIPR Scan: '' (nAge b now) ''d''),
      count_med (above (sAge b now) (thr t ''med_scan_age_days'' 14))
        (shown ''SIPR Scan: '' (sAge b now) ''d''),
      count_med (count_above (tamPastDue b) (thr t ''med_tam_past_due'' 10))
        (shown ''TAMs: '' (tamPastDue b) [])]"

definition med_stage :: "boat \<Rightarrow> jsobject \<Rightarrow> int \<Rightarrow> state \<Rightarrow> error + state" where
  "med_stage b t now s =
     (case run (med_checks b t now) \<lparr>medConditionCount = 0, medReasons = []\<rparr> of
        Inl e \<Rightarrow> Inl e
      | Inr m \<Rightarrow>
          Inr (if 2 \<le> medConditionCount m
               then s\<lparr>level := MED, reasons := reasons s @ medReasons m\<rparr>
               else s))"

text \<open>
  The LOW requirements. \<open>meetsLowCriteria\<close> starts true and each failing test clears it.
\<close>

definition meetsLowCriteria :: "boat \<Rightarrow> jsobject \<Rightarrow> int \<Rightarrow> bool" where
  "meetsLowCriteria b t now =
     (\<not> (\<not> is_nmci b \<and> at_least (vramNiprRaVph b) (thr t ''low_vph'' (5 / 2))) \<and>
      \<not> at_least (vramSiprRaVph b) (thr t ''low_vph'' (5 / 2)) \<and>
      \<not> (\<not> is_nmci b \<and>
           below (essNiprProductCompliance b) (thr t ''low_product_compliance'' 95)) \<and>
      \<not> below (essSiprProductCompliance b) (thr t ''low_product_compliance'' 95) \<and>
      \<not> (toggle t ''low_true_policy_compliance_enabled'' \<and> \<not> is_nmci b \<and>
           below (essNiprTruePolicy b) (thr t ''low_true_policy_compliance'' 95)) \<and>
      \<not> (toggle t ''low_true_policy_compliance_enabled'' \<and>
           below (essSiprTruePolicy b) (thr t ''low_true_policy_compliance'' 95)) \<and>
      \<not> (toggle t ''low_raw_policy_compliance_enabled'' \<and> \<not> is_nmci b \<and>
           below (essNiprPolicyEnforced b) (thr t ''low_raw_policy_compliance'' 95)) \<and>
      \<not> (toggle t ''low_raw_policy_compliance_enabled'' \<and>
           below (essSiprPolicyEnforced b) (thr t ''low_raw_policy_compliance'' 95)) \<and>
      \<not> (\<not> is_nmci b \<and> above (nAge b now) (thr t ''low_scan_age_days'' 14)) \<and>
      \<not> above (sAge b now) (thr t ''low_scan_age_days'' 14) \<and>
      \<not> (toggle t ''low_tam_past_due_enabled'' \<and>
           count_above (tamPastDue b) (thr t ''low_tam_past_due'' 5)))"

definition low_reasons :: "boat \<Rightarrow> jsobject \<Rightarrow> int \<Rightarrow> (state \<Rightarrow> error + state) list" where
  "low_reasons b t now =
     [push_reason (\<not> is_nmci b \<and> at_least (vramNiprRaVph b) (thr t ''low_vph'' (5 / 2)))
        (fixed ''NIPR VPH: '' (vramNiprRaVph b) 2 []),
      push_reason (at_least (vramSiprRaVph b) (thr t ''low_vph'' (5 / 2)))
        (fixed ''SIPR VPH: '' (vramSiprRaVph b) 2 []),
      push_reason (\<not> is_nmci b \<and>
           below (essNiprProductCompliance b) (thr t ''low_product_compliance'' 95))
        (fixed ''NIPR Prod: '' (essNiprProductCompliance b) 1 ''%''),
      push_reason (below (essSiprProductCompliance b) (thr t ''low_product_compliance'' 95))
        (fixed ''SIPR Prod: '' (essSiprProductCompliance b) 1 ''%''),
      push_reason (toggle t ''low_true_policy_compliance_enabled'' \<and> \<not> is_nmci b \<and>
           below (essNiprTruePolicy b) (thr t ''low_true_policy_compliance'' 95))
        (fixed ''NIPR TruePolicy: '' (essNiprTruePolicy b) 1 ''%''),
      push_reason (toggle t ''low_true_policy_compliance_enabled'' \<and>
           below (essSiprTruePolicy b) (thr t ''low_true_policy_compliance'' 95))
        (fixed ''SIPR TruePolicy: '' (essSiprTruePolicy b) 1 ''%''),
      push_reason (toggle t ''low_raw_policy_compliance_enabled'' \<and> \<not> is_nmci b \<and>
           below (essNiprPolicyEnforced b) (thr t ''low_raw_policy_compliance'' 95))
        (fixed ''NIPR RawPolicy: '' (essNiprPolicyEnforced b) 1 ''%''),
      push_reason (toggle t ''low_raw_policy_compliance_enabled'' \<and>
           below (essSiprPolicyEnforced b) (thr t ''low_raw_policy_compliance'' 95))
        (fixed ''SIPR RawPolicy: '' (essSiprPolicyEnforced b) 1 ''%''),
      push_reason (\<not> is_nmci b \<and> above (nAge b now) (thr t ''low_scan_age_days'' 14))
        (shown ''NIPR Scan: '' (nAge b now) ''d''),
      push_reason (above (sAge b now) (thr t ''low_scan_age_days'' 14))
        (shown ''SIPR Scan: '' (sAge b now) ''d''),
      push_reason (toggle t ''low_tam_past_due_enabled'' \<and>
           count_above (tamPastDue b) (thr t ''low_tam_past_due'' 5))
        (shown ''TAMs: '' (tamPastDue b) [])]"

definition low_stage :: "boat \<Rightarrow> jsobject \<Rightarrow> int \<Rightarrow> state \<Rightarrow> error + state" where
  "low_stage b t now s =
     (if \<not> meetsLowCriteria b t now
      then run (low_reasons b t now) (s\<lparr>level := MED\<rparr>)
      else Inr s)"

text \<open>
  The scan-exempt rule. The branch is taken on \<open>boat.isNmci\<close> as it stands (its
  truthiness), not on the strict test the rest of the function uses.
\<close>

definition isScanExempt :: "boat \<Rightarrow> jsval" where
  "isScanExempt b =
     (if truthy (isNmci b) then js_and (vramNiprScanExempt b) (vramSiprScanExempt b)
      else js_or (vramNiprScanExempt b) (vramSiprScanExempt b))"

definition exempt_stage :: "boat \<Rightarrow> state \<Rightarrow> state" where
  "exempt_stage b s =
     (if truthy (isScanExempt b) \<and> highDueToNoScans s \<and>
         list_all (\<lambda>r. str_includes r ''VRAM data'') (reasons s)
      then s\<lparr>level := MED, reasons := reasons s @ [''Scan Exempt'']\<rparr>
      else s)"

text \<open>
  \<open>thresholds = defaultThresholds\<close> fills in a parameter left out, and
  \<open>thresholds || defaultThresholds\<close> a \<open>null\<close> one.
\<close>

definition resolve :: "config \<Rightarrow> jsobject" where
  "resolve c = (case c of CObj t \<Rightarrow> t | _ \<Rightarrow> defaultThresholds)"

definition initial :: state where
  "initial = \<lparr>level = LOW, reasons = [], highDueToNoScans = False\<rparr>"

definition calculateRisk :: "boat \<Rightarrow> config \<Rightarrow> int \<Rightarrow> error + risk" where
  "calculateRisk b thresholds now =
     (let t = resolve thresholds in
      case high_stage b t now initial of
        Inl e \<Rightarrow> Inl e
      | Inr s1 \<Rightarrow>
          (case (if level s1 \<noteq> HIGH then med_stage b t now s1 else Inr s1) of
             Inl e \<Rightarrow> Inl e
           | Inr s2 \<Rightarrow>
               (case (if level s2 = LOW then low_stage b t now s2 else Inr s2) of
                  Inl e \<Rightarrow> Inl e
                | Inr s3 \<Rightarrow>
                    (let s4 = (if level s3 = HIGH then exempt_stage b s3 else s3)
                     in Inr \<lparr>level = level s4, reasons = reasons s4\<rparr>))))"

section \<open>Colour classification\<close>

text \<open>
  The colour functions take \<open>thresholds = defaultThresholds\<close> and read its keys directly:
  a parameter left out is the default, a \<open>null\<close> one throws at the first key read. That
  read comes after the test of the value for \<open>null\<close> and \<open>undefined\<close>.
\<close>

definition color_config :: "config \<Rightarrow> error + jsobject" where
  "color_config c =
     (case c of CUndefined \<Rightarrow> Inr defaultThresholds | CNull \<Rightarrow> Inl TypeError | CObj t \<Rightarrow> Inr t)"

text \<open>
  Higher is better:
  \<open>v >= green ? 'risk-low' : v < red ? 'risk-high' : 'risk-med'\<close>, with the fallbacks 95
  and 90 in each of the six functions of this shape.
\<close>

definition compliance_class :: "string \<Rightarrow> string \<Rightarrow> jsval \<Rightarrow> config \<Rightarrow> error + string" where
  "compliance_class green red v c =
     (if v = JNull \<or> v = JUndefined then Inr []
      else case color_config c of
             Inl e \<Rightarrow> Inl e
           | Inr t \<Rightarrow>
               Inr (if js_ge v (thr t green 95) then ''risk-low''
                    else if js_lt v (thr t red 90) then ''risk-high''
                    else ''risk-med''))"

definition prodCompClass :: "jsval \<Rightarrow> config \<Rightarrow> error + string" where
  "prodCompClass = compliance_class ''color_product_green'' ''color_product_red''"

definition policyCompClass :: "jsval \<Rightarrow> config \<Rightarrow> error + string" where
  "policyCompClass = compliance_class ''color_policy_green'' ''color_policy_red''"

definition policyRawClass :: "jsval \<Rightarrow> config \<Rightarrow> error + string" where
  "policyRawClass = compliance_class ''color_policy_raw_green'' ''color_policy_raw_red''"

definition hqProdClass :: "jsval \<Rightarrow> config \<Rightarrow> error + string" where
  "hqProdClass = compliance_class ''hq_color_product_green'' ''hq_color_product_red''"

definition hqPolicyClass :: "jsval \<Rightarrow> config \<Rightarrow> error + string" where
  "hqPolicyClass = compliance_class ''hq_color_policy_green'' ''hq_color_policy_red''"

definition hqPolicyRawClass :: "jsval \<Rightarrow> config \<Rightarrow> error + string" where
  "hqPolicyRawClass = compliance_class ''hq_color_policy_raw_green'' ''hq_color_policy_raw_red''"

text \<open>Lower is better: \<open>v <= green ? 'risk-low' : v > red ? 'risk-high' : 'risk-med'\<close>.\<close>

definition vphClass :: "jsval \<Rightarrow> config \<Rightarrow> error + string" where
  "vphClass v c =
     (if v = JNull \<or> v = JUndefined then Inr []
      else case color_config c of
             Inl e \<Rightarrow> Inl e
           | Inr t \<Rightarrow>
               Inr (if js_le v (thr t ''color_vph_green'' (5 / 2)) then ''risk-low''
                    else if js_gt v (thr t ''color_vph_red'' (7 / 2)) then ''risk-high''
                    else ''risk-med''))"

text \<open>
  The scan date: no date and no valid date are the worst class; the age is not tested
  for its sign here, unlike in \<open>scanAge\<close>.
\<close>

definition scanAgeClass :: "int \<Rightarrow> scandate \<Rightarrow> config \<Rightarrow> error + string" where
  "scanAgeClass now d c =
     (case d of
        DateAt ms \<Rightarrow>
          (case color_config c of
             Inl e \<Rightarrow> Inl e
           | Inr t \<Rightarrow>
               (let age = num (of_int ((now - ms) div 86400000))
                in Inr (if js_le age (thr t ''color_scan_green'' 14) then ''risk-low''
                        else if js_gt age (thr t ''color_scan_red'' 14) then ''risk-high''
                        else ''risk-med'')))
      | _ \<Rightarrow> Inr ''risk-high'')"

definition breakfixClass :: "jsval \<Rightarrow> string" where
  "breakfixClass v =
     (if v = JNull \<or> v = JUndefined then []
      else if js_gt v (num 0) then ''risk-high'' else [])"

section \<open>Aggregation\<close>

subsection \<open>Addition, division by a count, minimum\<close>

fun num_add :: "jsnum \<Rightarrow> jsnum \<Rightarrow> jsnum" where
  "num_add NaN y = NaN"
| "num_add x NaN = NaN"
| "num_add PosInf NegInf = NaN"
| "num_add NegInf PosInf = NaN"
| "num_add PosInf y = PosInf"
| "num_add x PosInf = PosInf"
| "num_add NegInf y = NegInf"
| "num_add x NegInf = NegInf"
| "num_add (Fin a) (Fin b) = to_double (a + b)"

text \<open>\<open>a + b\<close>: a text if either operand is one, a number otherwise.\<close>

definition is_text :: "jsval \<Rightarrow> bool" where
  "is_text v = (case v of JStr s \<Rightarrow> True | _ \<Rightarrow> False)"

definition js_add :: "jsval \<Rightarrow> jsval \<Rightarrow> jsval" where
  "js_add a b =
     (if is_text a \<or> is_text b then JStr (to_string a @ to_string b)
      else JNum (num_add (to_number a) (to_number b)))"

text \<open>\<open>x / n\<close> for a count \<open>n\<close>, which the program divides by only when \<open>n > 0\<close>.\<close>

definition div_count :: "jsval \<Rightarrow> nat \<Rightarrow> jsnum" where
  "div_count x n = (case to_number x of Fin q \<Rightarrow> to_double (q / of_nat n) | y \<Rightarrow> y)"

text \<open>\<open>Math.min(100, x)\<close>.\<close>

definition min100 :: "jsnum \<Rightarrow> jsval" where
  "min100 x = JNum (case x of NaN \<Rightarrow> NaN | PosInf \<Rightarrow> Fin 100 | NegInf \<Rightarrow> NegInf | Fin q \<Rightarrow> Fin (min 100 q))"

text \<open>\<open>cnt > 0 ? Math.min(100, sum / cnt) : 0\<close>.\<close>

definition capped_average :: "jsval \<Rightarrow> nat \<Rightarrow> jsval" where
  "capped_average s n = (if 0 < n then min100 (div_count s n) else num 0)"

subsection \<open>Objects used as dictionaries\<close>

text \<open>
  \<open>groups = {}\<close> is an ordinary object: a key read finds the object's own entry, or else
  what every object inherits. An inherited value is truthy and is neither a group nor an
  array, so the statement that follows the \<open>!groups[key]\<close> test throws on it. The own
  entries are kept in insertion order.
\<close>

definition object_prototype_keys :: "string list" where
  "object_prototype_keys =
     [''constructor'', ''hasOwnProperty'', ''isPrototypeOf'', ''propertyIsEnumerable'',
      ''toLocaleString'', ''toString'', ''valueOf'', ''__proto__'',
      ''__defineGetter__'', ''__defineSetter__'', ''__lookupGetter__'', ''__lookupSetter__'']"

text \<open>
  \<open>Object.values\<close>: the entries whose key is an array index come first, by index; then
  the others as inserted.
\<close>

definition is_array_index :: "string \<Rightarrow> bool" where
  "is_array_index k =
     (k \<noteq> [] \<and> list_all is_digit k \<and> (k = ''0'' \<or> hd k \<noteq> CHR ''0'') \<and>
      digits_value 10 k < 2 ^ 32 - 1)"

definition own_values :: "(string \<times> 'a) list \<Rightarrow> 'a list" where
  "own_values obj =
     map snd (sort_key (\<lambda>e. digits_value 10 (fst e)) (filter (\<lambda>e. is_array_index (fst e)) obj)
              @ filter (\<lambda>e. \<not> is_array_index (fst e)) obj)"

definition strict_eq :: "jsval \<Rightarrow> jsval \<Rightarrow> bool" where
  "strict_eq a b = (a = b \<and> a \<noteq> JNum NaN)"

subsection \<open>aggregateByISIC\<close>

text \<open>
  An entry of the registry \<open>settings.isics\<close>; \<open>isic_tycom\<close> is its field \<open>tycom\<close>. A group
  is such an entry with the boats collected under it.
\<close>

record isic_info =
  isic_name :: jsval
  isic_short :: jsval
  isic_tycom :: jsval

record isic_group = isic_info +
  boats :: "boat list"

text \<open>
  \<open>settings.isics.find(i => i.isic_name === b.isic) || { isic_name: b.isic, isic_short:
  b.isic.slice(0, 6), tycom: b.tycom }\<close>; only a string has \<open>slice\<close>.
\<close>

definition isic_info_for :: "isic_info list \<Rightarrow> boat \<Rightarrow> error + isic_info" where
  "isic_info_for isics b =
     (case find (\<lambda>i. strict_eq (isic_name i) (isic b)) isics of
        Some i \<Rightarrow> Inr i
      | None \<Rightarrow>
          (case isic b of
             JStr s \<Rightarrow> Inr \<lparr>isic_name = isic b, isic_short = JStr (take 6 s), isic_tycom = tycom b\<rparr>
           | _ \<Rightarrow> Inl TypeError))"

definition add_to_group :: "isic_info list \<Rightarrow> boat \<Rightarrow> (string \<times> isic_group) list
    \<Rightarrow> error + (string \<times> isic_group) list" where
  "add_to_group isics b groups =
     (let k = to_string (isic b) in
      case map_of groups k of
        Some g \<Rightarrow> Inr (map (\<lambda>e. if fst e = k then (k, (snd e)\<lparr>boats := boats (snd e) @ [b]\<rparr>) else e) groups)
      | None \<Rightarrow>
          if k \<in> set object_prototype_keys then Inl TypeError
          else case isic_info_for isics b of
                 Inl e \<Rightarrow> Inl e
               | Inr i \<Rightarrow>
                   Inr (groups @ [(k, \<lparr>isic_name = isic_name i, isic_short = isic_short i,
                                        isic_tycom = isic_tycom i, boats = [b]\<rparr>)]))"

record counts =
  highRiskCount :: nat
  medRiskCount :: nat
  lowRiskCount :: nat
  scanExemptCount :: nat

record agg = counts +
  isicName :: jsval
  isicShort :: jsval
  agg_tycom :: jsval
  boatCount :: nat
  niprBreakfixSum :: jsval
  siprBreakfixSum :: jsval
  niprProdCompAvg :: jsval
  niprPolEnfAvg :: jsval
  niprPolRawAvg :: jsval
  siprProdCompAvg :: jsval
  siprPolEnfAvg :: jsval
  siprPolRawAvg :: jsval

text \<open>The record under construction together with the sums and counts of the loop.\<close>

record agg_loop = agg +
  nProdSum :: jsval
  nProdCnt :: nat
  nPolSum :: jsval
  nPolCnt :: nat
  nPolRawSum :: jsval
  nPolRawCnt :: nat
  sProdSum :: jsval
  sProdCnt :: nat
  sPolSum :: jsval
  sPolCnt :: nat
  sPolRawSum :: jsval
  sPolRawCnt :: nat

text \<open>
  The risk counts: \<open>if (b.riskLevel === 'HIGH') ... else if ... 'MED' ... else if ...
  'LOW'\<close>, and the scan-exempt count.
\<close>

definition count_risk :: "boat \<Rightarrow> ('a counts_scheme) \<Rightarrow> 'a counts_scheme" where
  "count_risk b a =
     (if riskLevel b = JStr ''HIGH'' then a\<lparr>highRiskCount := Suc (highRiskCount a)\<rparr>
      else if riskLevel b = JStr ''MED'' then a\<lparr>medRiskCount := Suc (medRiskCount a)\<rparr>
      else if riskLevel b = JStr ''LOW'' then a\<lparr>lowRiskCount := Suc (lowRiskCount a)\<rparr>
      else a)"

definition count_exempt :: "boat \<Rightarrow> ('a counts_scheme) \<Rightarrow> 'a counts_scheme" where
  "count_exempt b a =
     (if truthy (js_or (vramNiprScanExempt b) (vramSiprScanExempt b))
      then a\<lparr>scanExemptCount := Suc (scanExemptCount a)\<rparr> else a)"

text \<open>
  The body of the loop is a sequence of statements on the record and the sums;
  \<open>tally\<close> is the statement \<open>if (v !== null) { sum += v; cnt++; }\<close> and \<open>unless_nmci\<close>
  the block \<open>if (!b.isNmci) { ... }\<close>.
\<close>

definition seq :: "('s \<Rightarrow> 's) list \<Rightarrow> 's \<Rightarrow> 's" where
  "seq fs a = fold (\<lambda>f. f) fs a"

definition tally ::
  "jsval \<Rightarrow> ((jsval \<Rightarrow> jsval) \<Rightarrow> 's \<Rightarrow> 's) \<Rightarrow> ((nat \<Rightarrow> nat) \<Rightarrow> 's \<Rightarrow> 's) \<Rightarrow> 's \<Rightarrow> 's" where
  "tally v sum_update cnt_update a =
     (if v \<noteq> JNull then cnt_update Suc (sum_update (\<lambda>s. js_add s v) a) else a)"

definition unless_nmci :: "boat \<Rightarrow> ('s \<Rightarrow> 's) list \<Rightarrow> 's \<Rightarrow> 's" where
  "unless_nmci b fs a = (if \<not> truthy (isNmci b) then seq fs a else a)"

definition agg_step :: "agg_loop \<Rightarrow> boat \<Rightarrow> agg_loop" where
  "agg_step a b = seq
     [unless_nmci b
        [niprBreakfixSum_update (\<lambda>s. js_add s (js_or (essNiprBreakfix b) (num 0))),
         tally (essNiprProductCompliance b) nProdSum_update nProdCnt_update,
         tally (essNiprTruePolicy b) nPolSum_update nPolCnt_update,
         tally (essNiprPolicyEnforced b) nPolRawSum_update nPolRawCnt_update],
      siprBreakfixSum_update (\<lambda>s. js_add s (js_or (essSiprBreakfix b) (num 0))),
      tally (essSiprProductCompliance b) sProdSum_update sProdCnt_update,
      tally (essSiprTruePolicy b) sPolSum_update sPolCnt_update,
      tally (essSiprPolicyEnforced b) sPolRawSum_update sPolRawCnt_update,
      count_risk b,
      count_exempt b] a"

definition agg_start :: "isic_group \<Rightarrow> agg_loop" where
  "agg_start g =
     \<lparr>highRiskCount = 0, medRiskCount = 0, lowRiskCount = 0, scanExemptCount = 0,
      isicName = isic_name g, isicShort = isic_short g, agg_tycom = isic_tycom g,
      boatCount = length (boats g), niprBreakfixSum = num 0, siprBreakfixSum = num 0,
      niprProdCompAvg = num 0, niprPolEnfAvg = num 0, niprPolRawAvg = num 0,
      siprProdCompAvg = num 0, siprPolEnfAvg = num 0, siprPolRawAvg = num 0,
      nProdSum = num 0, nProdCnt = 0, nPolSum = num 0, nPolCnt = 0,
      nPolRawSum = num 0, nPolRawCnt = 0, sProdSum = num 0, sProdCnt = 0,
      sPolSum = num 0, sPolCnt = 0, sPolRawSum = num 0, sPolRawCnt = 0\<rparr>"

definition aggregate_group :: "isic_group \<Rightarrow> agg" where
  "aggregate_group g =
     (let a = foldl agg_step (agg_start g) (boats g)
      in \<lparr>highRiskCount = highRiskCount a, medRiskCount = medRiskCount a,
          lowRiskCount = lowRiskCount a, scanExemptCount = scanExemptCount a,
          isicName = isicName a, isicShort = isicShort a, agg_tycom = agg_tycom a,
          boatCount = boatCount a,
          niprBreakfixSum = niprBreakfixSum a, siprBreakfixSum = siprBreakfixSum a,
          niprProdCompAvg = capped_average (nProdSum a) (nProdCnt a),
          niprPolEnfAvg = capped_average (nPolSum a) (nPolCnt a),
          niprPolRawAvg = capped_average (nPolRawSum a) (nPolRawCnt a),
          siprProdCompAvg = capped_average (sProdSum a) (sProdCnt a),
          siprPolEnfAvg = capped_average (sPolSum a) (sPolCnt a),
          siprPolRawAvg = capped_average (sPolRawSum a) (sPolRawCnt a)\<rparr>)"

fun group_boats :: "isic_info list \<Rightarrow> boat list \<Rightarrow> (string \<times> isic_group) list
    \<Rightarrow> error + (string \<times> isic_group) list" where
  "group_boats isics [] groups = Inr groups"
| "group_boats isics (b # bs) groups =
     (case add_to_group isics b groups of
        Inl e \<Rightarrow> Inl e
      | Inr groups' \<Rightarrow> group_boats isics bs groups')"

record by_tycom =
  csl :: "agg list"
  csp :: "agg list"

text \<open>\<open>settings = { isics: [] }\<close>: the second argument is the registry \<open>settings.isics\<close>.\<close>

definition aggregateByISIC :: "boat list \<Rightarrow> isic_info list \<Rightarrow> error + by_tycom" where
  "aggregateByISIC bs isics =
     (case group_boats isics bs [] of
        Inl e \<Rightarrow> Inl e
      | Inr groups \<Rightarrow>
          (let aggs = map aggregate_group (own_values groups)
           in Inr \<lparr>csl = filter (\<lambda>a. agg_tycom a = JStr ''CSL'') aggs,
                   csp = filter (\<lambda>a. agg_tycom a = JStr ''CSP'') aggs\<rparr>))"

subsection \<open>calculateStats\<close>

record stats = counts +
  totalBoats :: nat
  totalBreakfix :: jsval
  avgVph :: jsval
  avgCompliance :: jsval

record stats_loop = stats +
  vphValues :: "jsval list"
  compValues :: "jsval list"

definition stats_step :: "stats_loop \<Rightarrow> boat \<Rightarrow> stats_loop" where
  "stats_step a b =
     (let a1 = count_risk b a;
          a2 = a1\<lparr>totalBreakfix := js_add (totalBreakfix a1)
                  (js_add (if truthy (isNmci b) then num 0 else js_or (essNiprBreakfix b) (num 0))
                          (js_or (essSiprBreakfix b) (num 0)))\<rparr>;
          a3 = count_exempt b a2;
          a4 = (if \<not> truthy (isNmci b) \<and> vramNiprRaVph b \<noteq> JNull
                then a3\<lparr>vphValues := vphValues a3 @ [vramNiprRaVph b]\<rparr> else a3);
          a5 = (if vramSiprRaVph b \<noteq> JNull
                then a4\<lparr>vphValues := vphValues a4 @ [vramSiprRaVph b]\<rparr> else a4);
          a6 = (if \<not> truthy (isNmci b) \<and> essNiprProductCompliance b \<noteq> JNull
                then a5\<lparr>compValues := compValues a5 @ [essNiprProductCompliance b]\<rparr> else a5)
      in if essSiprProductCompliance b \<noteq> JNull
         then a6\<lparr>compValues := compValues a6 @ [essSiprProductCompliance b]\<rparr> else a6)"

definition calculateStats :: "boat list \<Rightarrow> stats" where
  "calculateStats bs =
     (let a = foldl stats_step
                \<lparr>highRiskCount = 0, medRiskCount = 0, lowRiskCount = 0, scanExemptCount = 0,
                 totalBoats = length bs, totalBreakfix = num 0, avgVph = num 0,
                 avgCompliance = num 0, vphValues = [], compValues = []\<rparr> bs
      in \<lparr>highRiskCount = highRiskCount a, medRiskCount = medRiskCount a,
          lowRiskCount = lowRiskCount a, scanExemptCount = scanExemptCount a,
          totalBoats = totalBoats a, totalBreakfix = totalBreakfix a,
          avgVph = (if vphValues a \<noteq> []
                    then JNum (div_count (foldl js_add (num 0) (vphValues a)) (length (vphValues a)))
                    else avgVph a),
          avgCompliance = (if compValues a \<noteq> []
                    then min100 (div_count (foldl js_add (num 0) (compValues a)) (length (compValues a)))
                    else avgCompliance a)\<rparr>)"

subsection \<open>groupBoatsBy\<close>

text \<open>
  \<open>field\<close> stands for the property read \<open>b[field]\<close>. The key of a bucket is the text of
  \<open>b[field] || 'Unknown'\<close>.
\<close>

definition bucket_key :: "(boat \<Rightarrow> jsval) \<Rightarrow> boat \<Rightarrow> string" where
  "bucket_key field b = to_string (js_or (field b) (JStr ''Unknown''))"

fun groupBoatsBy_loop :: "(boat \<Rightarrow> jsval) \<Rightarrow> boat list \<Rightarrow> (string \<times> boat list) list
    \<Rightarrow> error + (string \<times> boat list) list" where
  "groupBoatsBy_loop field [] groups = Inr groups"
| "groupBoatsBy_loop field (b # bs) groups =
     (let key = bucket_key field b in
      case map_of groups key of
        Some g \<Rightarrow>
          groupBoatsBy_loop field bs
            (map (\<lambda>e. if fst e = key then (key, snd e @ [b]) else e) groups)
      | None \<Rightarrow>
          if key \<in> set object_prototype_keys then Inl TypeError
          else groupBoatsBy_loop field bs (groups @ [(key, [b])]))"

definition groupBoatsBy :: "boat list \<Rightarrow> (boat \<Rightarrow> jsval) \<Rightarrow> error + (string \<times> boat list) list" where
  "groupBoatsBy bs field = groupBoatsBy_loop field bs []"

section \<open>The record factories of the data model\<close>

text \<open>
  The fields the calculator and the aggregator read, as the factories of the data model
  set them. \<open>createHealthyBoat\<close> dates both scans five days before \<open>now\<close>. The literals
  \<open>96.04\<close>, \<open>98.01\<close> and \<open>1.2\<close> denote the doubles nearest to them.
\<close>

definition createBoatData :: "string \<Rightarrow> string \<Rightarrow> jsval \<Rightarrow> boat" where
  "createBoatData isic' tycom' isNmci' =
     \<lparr>isic = JStr isic', tycom = JStr tycom', isNmci = isNmci',
      essNiprBreakfix = JNull, essNiprProductCompliance = JNull,
      essNiprPolicyEnforced = JNull, essNiprTruePolicy = JNull,
      essSiprBreakfix = JNull, essSiprProductCompliance = JNull,
      essSiprPolicyEnforced = JNull, essSiprTruePolicy = JNull,
      vramNiprAssets = JNull, vramNiprScanDate = DateNull, vramNiprRaVph = JNull,
      vramNiprScanExempt = JBool False,
      vramSiprAssets = JNull, vramSiprScanDate = DateNull, vramSiprRaVph = JNull,
      vramSiprScanExempt = JBool False,
      tamPastDue = JNull, riskLevel = JStr ''LOW''\<rparr>"

definition createHealthyBoat :: "int \<Rightarrow> boat" where
  "createHealthyBoat now =
     (createBoatData ''COMSUBRON 1'' ''CSL'' (JBool False))
       \<lparr>essNiprBreakfix := num 0, essNiprProductCompliance := num 98,
        essNiprPolicyEnforced := num 98, essNiprTruePolicy := JNum (to_double (9604 / 100)),
        essSiprBreakfix := num 0, essSiprProductCompliance := num 99,
        essSiprPolicyEnforced := num 99, essSiprTruePolicy := JNum (to_double (9801 / 100)),
        vramNiprAssets := num 100, vramNiprScanDate := DateAt (now - 5 * 24 * 60 * 60 * 1000),
        vramNiprRaVph := num (3 / 2), vramNiprScanExempt := JBool False,
        vramSiprAssets := num 50, vramSiprScanDate := DateAt (now - 5 * 24 * 60 * 60 * 1000),
        vramSiprRaVph := JNum (to_double (6 / 5)), vramSiprScanExempt := JBool False,
        tamPastDue := num 2\<rparr>"

definition createNoVramBoat :: boat where
  "createNoVramBoat =
     (createBoatData ''COMSUBRON 1'' ''CSL'' (JBool False))
       \<lparr>essNiprBreakfix := num 0, essNiprProductCompliance := num 98,
        essNiprPolicyEnforced := num 98, essNiprTruePolicy := JNum (to_double (9604 / 100)),
        essSiprBreakfix := num 0, essSiprProductCompliance := num 99,
        essSiprPolicyEnforced := num 99, essSiprTruePolicy := JNum (to_double (9801 / 100))\<rparr>"

definition createNmciBoat :: "int \<Rightarrow> boat" where
  "createNmciBoat now = (createHealthyBoat now)\<lparr>isNmci := JBool True\<rparr>"

section \<open>Predicates used in the statements and proofs\<close>

text \<open>A statement preserves a property of the locals when it keeps it whenever it returns.\<close>

definition preserves :: "('s \<Rightarrow> bool) \<Rightarrow> ('s \<Rightarrow> error + 's) \<Rightarrow> bool" where
  "preserves P f = (\<forall>s s'. P s \<longrightarrow> f s = Inr s' \<longrightarrow> P s')"

definition low_inv :: "state \<Rightarrow> bool" where
  "low_inv s = (level s = LOW \<longrightarrow> reasons s = [])"

text \<open>
  Two configurations are the same to \<open>calculateRisk\<close> when its eighteen threshold lookups
  and three toggle lookups give the same values.
\<close>

definition same_lookups :: "jsobject \<Rightarrow> jsobject \<Rightarrow> bool" where
  "same_lookups t u =
     (thr t ''high_product_compliance'' 50 = thr u ''high_product_compliance'' 50 \<and>
      thr t ''auto_high_ra_vph'' 5 = thr u ''auto_high_ra_vph'' 5 \<and>
      thr t ''auto_high_scan_age_days'' 30 = thr u ''auto_high_scan_age_days'' 30 \<and>
      thr t ''high_ess_compliance'' 0 = thr u ''high_ess_compliance'' 0 \<and>
      thr t ''high_raw_policy_compliance'' 0 = thr u ''high_raw_policy_compliance'' 0 \<and>
      thr t ''high_tam_past_due'' 20 = thr u ''high_tam_past_due'' 20 \<and>
      thr t ''med_ra_vph'' (7 / 2) = thr u ''med_ra_vph'' (7 / 2) \<and>
      thr t ''med_ess_compliance'' 95 = thr u ''med_ess_compliance'' 95 \<and>
      thr t ''med_true_policy_compliance'' 0 = thr u ''med_true_policy_compliance'' 0 \<and>
      thr t ''med_raw_policy_compliance'' 0 = thr u ''med_raw_policy_compliance'' 0 \<and>
      thr t ''med_scan_age_days'' 14 = thr u ''med_scan_age_days'' 14 \<and>
      thr t ''med_tam_past_due'' 10 = thr u ''med_tam_past_due'' 10 \<and>
      thr t ''low_vph'' (5 / 2) = thr u ''low_vph'' (5 / 2) \<and>
      thr t ''low_product_compliance'' 95 = thr u ''low_product_compliance'' 95 \<and>
      thr t ''low_true_policy_compliance'' 95 = thr u ''low_true_policy_compliance'' 95 \<and>
      thr t ''low_raw_policy_compliance'' 95 = thr u ''low_raw_policy_compliance'' 95 \<and>
      thr t ''low_scan_age_days'' 14 = thr u ''low_scan_age_days'' 14 \<and>
      thr t ''low_tam_past_due'' 5 = thr u ''low_tam_past_due'' 5 \<and>
      toggle t ''low_true_policy_compliance_enabled'' =
        toggle u ''low_true_policy_compliance_enabled'' \<and>
      toggle t ''low_raw_policy_compliance_enabled'' =
        toggle u ''low_raw_policy_compliance_enabled'' \<and>
      toggle t ''low_tam_past_due_enabled'' = toggle u ''low_tam_past_due_enabled'')"

text \<open>
  The default table with the two true-policy thresholds at 0 and without the two
  auto-HIGH keys for VPH and scan age.
\<close>

definition emptyEquivalent :: jsobject where
  "emptyEquivalent = defaultThresholds
     (''auto_high_ra_vph'' := None, ''auto_high_scan_age_days'' := None,
      ''high_ess_compliance'' \<mapsto> num 0, ''med_true_policy_compliance'' \<mapsto> num 0)"

text \<open>
  The texts the program writes for numbers contain no letter \<open>V\<close>; neither does a string
  that reads as a number.
\<close>

definition plain :: "string \<Rightarrow> bool" where
  "plain s = (CHR ''V'' \<notin> set s)"

definition clean :: "string \<Rightarrow> bool" where
  "clean m = (\<not> str_includes m ''VRAM data'')"

definition clean_msg :: "error + string \<Rightarrow> bool" where
  "clean_msg msg = (case msg of Inl e \<Rightarrow> True | Inr m \<Rightarrow> clean m)"

definition reason_prefixes :: "string list" where
  "reason_prefixes =
     [''NIPR Breakfix: '', ''SIPR Breakfix: '', ''NIPR Prod: '', ''SIPR Prod: '',
      ''NIPR VPH: '', ''SIPR VPH: '', ''NIPR Scan: '', ''SIPR Scan: '',
      ''NIPR True Policy: '', ''SIPR True Policy: '', ''NIPR Raw Policy: '',
      ''SIPR Raw Policy: '', ''TAMs: '']"

definition is_number :: "jsval \<Rightarrow> bool" where
  "is_number v = (\<exists>x. v = JNum x)"

definition others_clean :: "state \<Rightarrow> bool" where
  "others_clean s = (\<forall>x\<in>set (reasons s). x = ''No VRAM data'' \<or> clean x)"

text \<open>The HIGH checks other than the one for missing VRAM data.\<close>

definition other_high_checks :: "boat \<Rightarrow> jsobject \<Rightarrow> int \<Rightarrow> (state \<Rightarrow> error + state) list" where
  "other_high_checks b t now = breakfix_checks b @ threshold_checks b t now"

text \<open>
  A statement whose condition is false leaves every state as it is; one whose condition
  is true appends a reason whenever it returns.
\<close>

definition idle :: "(state \<Rightarrow> error + state) \<Rightarrow> bool" where
  "idle f = (\<forall>u. f u = Inr u)"

definition grows :: "(state \<Rightarrow> error + state) \<Rightarrow> bool" where
  "grows f = (\<forall>s s'. f s = Inr s' \<longrightarrow> length (reasons s) < length (reasons s'))"

definition idle_or_grows :: "(state \<Rightarrow> error + state) \<Rightarrow> bool" where
  "idle_or_grows f = (idle f \<or> grows f)"

text \<open>No reason that speaks of NIPR.\<close>

definition no_nipr :: "string list \<Rightarrow> bool" where
  "no_nipr rs = (\<forall>x\<in>set rs. \<not> prefix ''NIPR'' x)"

definition no_nipr_msg :: "error + string \<Rightarrow> bool" where
  "no_nipr_msg msg = (case msg of Inl e \<Rightarrow> True | Inr m \<Rightarrow> \<not> prefix ''NIPR'' m)"

text \<open>The boats of a list whose bucket key is \<open>k\<close>, in the order of the list.\<close>

definition bucket_of :: "(boat \<Rightarrow> jsval) \<Rightarrow> string \<Rightarrow> boat list \<Rightarrow> boat list" where
  "bucket_of field k bs = filter (\<lambda>b. bucket_key field b = k) bs"

subsection \<open>The averages of a group, as the specification words them\<close>

text \<open>
  The data model types a compliance field as a number or \<open>null\<close>; \<open>typed_compliance\<close>
  says so of the six fields that are averaged.
\<close>

definition null_or_finite :: "jsval \<Rightarrow> bool" where
  "null_or_finite v = (case v of JNull \<Rightarrow> True | JNum (Fin q) \<Rightarrow> True | _ \<Rightarrow> False)"

definition compliance_fields :: "(boat \<Rightarrow> jsval) list" where
  "compliance_fields =
     [essNiprProductCompliance, essNiprTruePolicy, essNiprPolicyEnforced,
      essSiprProductCompliance, essSiprTruePolicy, essSiprPolicyEnforced]"

definition typed_compliance :: "boat \<Rightarrow> bool" where
  "typed_compliance b = list_all (\<lambda>f. null_or_finite (f b)) compliance_fields"

text \<open>
  The values that a list of boats reports for a field; their sum in double arithmetic,
  added from left to right; and their mean in double arithmetic: that sum divided by
  their number, capped at 100, and 0 when there is no value.
\<close>

definition reported :: "(boat \<Rightarrow> jsval) \<Rightarrow> boat list \<Rightarrow> rat list" where
  "reported f bs = concat (map (\<lambda>b. case f b of JNum (Fin q) \<Rightarrow> [q] | _ \<Rightarrow> []) bs)"

definition double_sum :: "rat list \<Rightarrow> jsnum" where
  "double_sum qs = foldl (\<lambda>s q. num_add s (Fin q)) (Fin 0) qs"

definition double_mean :: "rat list \<Rightarrow> jsval" where
  "double_mean qs =
     (if qs = [] then num 0 else min100 (div_count (JNum (double_sum qs)) (length qs)))"

text \<open>
  The arithmetic mean itself, rounded once to a double and capped at 100; and the values
  for which the two agree whatever their number below \<open>2^40\<close>: the whole numbers up to
  1000 in size.
\<close>

definition rounded_mean :: "rat list \<Rightarrow> jsval" where
  "rounded_mean qs =
     (if qs = [] then num 0 else min100 (to_double (sum_list qs / of_nat (length qs))))"

definition whole :: "rat \<Rightarrow> bool" where
  "whole q = (of_int \<lfloor>q\<rfloor> = q \<and> \<bar>q\<bar> \<le> 1000)"

text \<open>A number that is not \<open>NaN\<close>.\<close>

definition proper_number :: "jsval \<Rightarrow> bool" where
  "proper_number v = (case v of JNum NaN \<Rightarrow> False | JNum x \<Rightarrow> True | _ \<Rightarrow> False)"

text \<open>
  The key of a boat's group, the boats of the group with key \<open>k\<close>, and those of them that
  are not on NMCI.
\<close>

abbreviation group_key :: "boat \<Rightarrow> string" where
  "group_key b \<equiv> to_string (isic b)"

definition members :: "string \<Rightarrow> boat list \<Rightarrow> boat list" where
  "members k bs = filter (\<lambda>b. group_key b = k) bs"

definition uses_nipr :: "boat \<Rightarrow> bool" where
  "uses_nipr b = (\<not> truthy (isNmci b))"

definition on_nipr :: "boat list \<Rightarrow> boat list" where
  "on_nipr bs = filter uses_nipr bs"

definition spec_averages :: "boat list \<Rightarrow> jsval list" where
  "spec_averages ms =
     [double_mean (reported essNiprProductCompliance (on_nipr ms)),
      double_mean (reported essNiprTruePolicy (on_nipr ms)),
      double_mean (reported essNiprPolicyEnforced (on_nipr ms)),
      double_mean (reported essSiprProductCompliance ms),
      double_mean (reported essSiprTruePolicy ms),
      double_mean (reported essSiprPolicyEnforced ms)]"

definition averages :: "agg \<Rightarrow> jsval list" where
  "averages a = [niprProdCompAvg a, niprPolEnfAvg a, niprPolRawAvg a,
                 siprProdCompAvg a, siprPolEnfAvg a, siprPolRawAvg a]"

text \<open>
  The records of all groups, of which the result keeps those of the two type commands:
  one record for the group of every boat, none twice, each with the number of boats and
  the averages of its group.
\<close>

definition agg_key :: "agg \<Rightarrow> string" where
  "agg_key a = to_string (isicName a)"

definition aggregates_of :: "boat list \<Rightarrow> agg list \<Rightarrow> bool" where
  "aggregates_of bs aggs =
     (distinct (map agg_key aggs) \<and> set (map agg_key aggs) = set (map group_key bs) \<and>
      list_all (\<lambda>a. boatCount a = length (members (agg_key a) bs) \<and>
                     averages a = spec_averages (members (agg_key a) bs) \<and>
                     list_all proper_number (averages a)) aggs)"

text \<open>What one round of the loop does to a sum and to its count.\<close>

definition add_if :: "(boat \<Rightarrow> bool) \<Rightarrow> (boat \<Rightarrow> jsval) \<Rightarrow> jsval \<Rightarrow> boat \<Rightarrow> jsval" where
  "add_if c f s b = (if c b \<and> f b \<noteq> JNull then js_add s (f b) else s)"

definition count_if :: "(boat \<Rightarrow> bool) \<Rightarrow> (boat \<Rightarrow> jsval) \<Rightarrow> nat \<Rightarrow> boat \<Rightarrow> nat" where
  "count_if c f n b = (if c b \<and> f b \<noteq> JNull then Suc n else n)"

text \<open>
  The groups built from the boats seen so far: no key twice; each group holds the boats
  with its key, in order, is not empty, and is keyed by the text of its \<open>isic_name\<close>;
  every boat seen has a group.
\<close>

definition grouped :: "boat list \<Rightarrow> (string \<times> isic_group) list \<Rightarrow> bool" where
  "grouped seen groups =
     (distinct (map fst groups) \<and>
      list_all (\<lambda>e. boats (snd e) = members (fst e) seen \<and> boats (snd e) \<noteq> [] \<and>
                    fst e = to_string (isic_name (snd e))) groups \<and>
      list_all (\<lambda>b. map_of groups (group_key b) \<noteq> None) seen)"

section \<open>Proofs\<close>

subsection \<open>Sequences of statements\<close>

lemma run_preserves:
  "list_all (preserves P) fs \<Longrightarrow> preserves P (run fs)"
proof (induction fs)
  case Nil
  then show ?case by (simp add: preserves_def)
next
  case (Cons f fs)
  then have f: "preserves P f" and r: "preserves P (run fs)" by simp_all
  show ?case
    unfolding preserves_def
  proof (intro allI impI)
    fix s s' assume P: "P s" and e: "run (f # fs) s = Inr s'"
    from e obtain s1 where s1: "f s = Inr s1" and e': "run fs s1 = Inr s'"
      by (auto split: sum.splits)
    from f P s1 have "P s1" by (auto simp: preserves_def)
    with r e' show "P s'" by (auto simp: preserves_def)
  qed
qed

lemma guarded_preserves:
  "list_all (preserves P) fs \<Longrightarrow> preserves P (guarded c fs)"
  using run_preserves [of P fs] by (auto simp: preserves_def guarded_def)

lemma preservesD: "preserves P f \<Longrightarrow> P s \<Longrightarrow> f s = Inr s' \<Longrightarrow> P s'"
  by (auto simp: preserves_def)

subsection \<open>Reasons come with an escalation\<close>

lemma raise_high_low_inv: "preserves low_inv (raise_high c msg)"
  by (auto simp: preserves_def raise_high_def low_inv_def split: if_splits sum.splits)

lemma no_vram_low_inv: "preserves low_inv (no_vram b)"
  by (auto simp: preserves_def no_vram_def low_inv_def split: if_splits)

lemma high_stage_low_inv: "preserves low_inv (high_stage b t now)"
  unfolding high_stage_def high_checks_def breakfix_checks_def threshold_checks_def
  by (intro run_preserves) (simp add: raise_high_low_inv no_vram_low_inv guarded_preserves)

lemma push_reason_level: "preserves (\<lambda>s. level s = l) (push_reason c msg)"
  by (auto simp: preserves_def push_reason_def split: if_splits sum.splits)

lemma low_reasons_level: "preserves (\<lambda>s. level s = l) (run (low_reasons b t now))"
  unfolding low_reasons_def by (intro run_preserves) (simp add: push_reason_level)

lemma low_stage_level:
  assumes "low_stage b t now s = Inr s'"
  shows "level s' = (if meetsLowCriteria b t now then level s else MED)"
proof (cases "meetsLowCriteria b t now")
  case True
  with assms show ?thesis by (simp add: low_stage_def)
next
  case False
  with assms have "run (low_reasons b t now) (s\<lparr>level := MED\<rparr>) = Inr s'"
    by (simp add: low_stage_def)
  from preservesD [OF low_reasons_level _ this, of MED] False show ?thesis by simp
qed

lemma low_stage_low_inv: "preserves low_inv (low_stage b t now)"
  unfolding preserves_def
proof (intro allI impI)
  fix s s' assume i: "low_inv s" and e: "low_stage b t now s = Inr s'"
  show "low_inv s'"
  proof (cases "meetsLowCriteria b t now")
    case True
    with e i show ?thesis by (simp add: low_stage_def)
  next
    case False
    with low_stage_level [OF e] show ?thesis by (simp add: low_inv_def)
  qed
qed

lemma med_stage_low_inv: "preserves low_inv (med_stage b t now)"
  by (auto simp: preserves_def med_stage_def low_inv_def split: if_splits sum.splits)

lemma exempt_stage_low_inv: "low_inv s \<Longrightarrow> low_inv (exempt_stage b s)"
  by (auto simp: exempt_stage_def low_inv_def)

text \<open>The four stages of a call that returns.\<close>

lemma calculateRisk_stages:
  assumes "calculateRisk b c now = Inr r"
  obtains s1 s2 s3 where
    "high_stage b (resolve c) now initial = Inr s1"
    "(if level s1 \<noteq> HIGH then med_stage b (resolve c) now s1 else Inr s1) = Inr s2"
    "(if level s2 = LOW then low_stage b (resolve c) now s2 else Inr s2) = Inr s3"
    "level r = level (if level s3 = HIGH then exempt_stage b s3 else s3)"
    "reasons r = reasons (if level s3 = HIGH then exempt_stage b s3 else s3)"
  using assms by (auto simp: calculateRisk_def Let_def split: sum.splits)

text \<open>
  C9. Whenever \<open>calculateRisk\<close> returns the level LOW, the list of reasons it returns is
  empty: a reason is only ever appended together with an escalation to MED or HIGH.
\<close>

theorem low_level_no_reasons:
  assumes "calculateRisk b c now = Inr r" and "level r = LOW"
  shows "reasons r = []"
proof -
  from assms(1) obtain s1 s2 s3 where
    s1: "high_stage b (resolve c) now initial = Inr s1" and
    s2: "(if level s1 \<noteq> HIGH then med_stage b (resolve c) now s1 else Inr s1) = Inr s2" and
    s3: "(if level s2 = LOW then low_stage b (resolve c) now s2 else Inr s2) = Inr s3" and
    l: "level r = level (if level s3 = HIGH then exempt_stage b s3 else s3)" and
    r: "reasons r = reasons (if level s3 = HIGH then exempt_stage b s3 else s3)"
    by (rule calculateRisk_stages)
  have i0: "low_inv initial" by (simp add: low_inv_def initial_def)
  from high_stage_low_inv i0 s1 have i1: "low_inv s1" by (rule preservesD)
  from med_stage_low_inv i1 s2 have i2: "low_inv s2"
    by (auto simp: preserves_def split: if_splits)
  from low_stage_low_inv i2 s3 have i3: "low_inv s3"
    by (auto simp: preserves_def split: if_splits)
  then have "low_inv (if level s3 = HIGH then exempt_stage b s3 else s3)"
    by (simp add: exempt_stage_low_inv)
  with l r assms(2) show ?thesis by (simp add: low_inv_def)
qed

theorem low_level_no_reasons_witness:
  "\<exists>r. calculateRisk (createHealthyBoat 0) CUndefined 0 = Inr r \<and> level r = LOW \<and> reasons r = []"
proof -
  have e: "calculateRisk (createHealthyBoat 0) CUndefined 0 = Inr \<lparr>level = LOW, reasons = []\<rparr>"
    by code_simp
  have "reasons \<lparr>level = LOW, reasons = []\<rparr> = []"
    by (rule low_level_no_reasons [OF e]) simp
  with e show ?thesis by simp
qed

subsection \<open>The product-compliance threshold at zero\<close>

text \<open>
  C3. With \<open>high_product_compliance\<close> set to 0, as in the default configuration, the lookup
  \<open>t.high_product_compliance || 50\<close> yields 50, so the HIGH product-compliance check
  runs against 50: a boat that is healthy except for a SIPR product compliance of 40 is
  rated HIGH, with the product-compliance reason.
\<close>

theorem high_product_compliance_zero_fires:
  "js_get defaultThresholds ''high_product_compliance'' = num 0 \<and>
   thr defaultThresholds ''high_product_compliance'' 50 = num 50 \<and>
   calculateRisk ((createHealthyBoat 0)\<lparr>essSiprProductCompliance := num 40\<rparr>)
     (CObj defaultThresholds) 0 = Inr \<lparr>level = HIGH, reasons = [''SIPR Prod: 40.0%'']\<rparr>"
  by code_simp

text \<open>
  C2. Lowering \<open>high_product_compliance\<close> from 30 to 0 (its disabling value) raises the
  same boat from MED to HIGH.
\<close>

theorem relaxing_high_product_compliance_raises_tier:
  "calculateRisk ((createHealthyBoat 0)\<lparr>essSiprProductCompliance := num 40\<rparr>)
     (CObj (defaultThresholds(''high_product_compliance'' \<mapsto> num 30))) 0
     = Inr \<lparr>level = MED, reasons = [''SIPR Prod: 40.0%'']\<rparr> \<and>
   calculateRisk ((createHealthyBoat 0)\<lparr>essSiprProductCompliance := num 40\<rparr>)
     (CObj (defaultThresholds(''high_product_compliance'' \<mapsto> num 0))) 0
     = Inr \<lparr>level = HIGH, reasons = [''SIPR Prod: 40.0%'']\<rparr>"
  by code_simp

subsection \<open>A configuration that is missing or empty\<close>

lemma same_lookups_high: "same_lookups t u \<Longrightarrow> high_checks b t now = high_checks b u now"
  unfolding same_lookups_def high_checks_def threshold_checks_def by simp

lemma same_lookups_med: "same_lookups t u \<Longrightarrow> med_checks b t now = med_checks b u now"
  unfolding same_lookups_def med_checks_def by simp

lemma same_lookups_meets:
  "same_lookups t u \<Longrightarrow> meetsLowCriteria b t now = meetsLowCriteria b u now"
  unfolding same_lookups_def meetsLowCriteria_def by simp

lemma same_lookups_low: "same_lookups t u \<Longrightarrow> low_reasons b t now = low_reasons b u now"
  unfolding same_lookups_def low_reasons_def by simp

lemma same_lookups_calculateRisk:
  assumes "same_lookups t u"
  shows "calculateRisk b (CObj t) now = calculateRisk b (CObj u) now"
proof -
  have h: "high_stage b t now = high_stage b u now"
    by (simp add: high_stage_def same_lookups_high [OF assms])
  have m: "med_stage b t now = med_stage b u now"
    by (simp add: med_stage_def same_lookups_med [OF assms] fun_eq_iff)
  have l: "low_stage b t now = low_stage b u now"
    by (simp add: low_stage_def same_lookups_low [OF assms] same_lookups_meets [OF assms]
        fun_eq_iff)
  show ?thesis unfolding calculateRisk_def Let_def resolve_def config.case h m l ..
qed

lemma empty_lookups: "same_lookups Map.empty emptyEquivalent"
  unfolding same_lookups_def by code_simp



subsection \<open>Comparison of numbers\<close>

lemma js_lt_num [simp]: "js_lt (num a) (num b) = (a < b)"
  by (simp add: js_lt_def)

lemma js_gt_num [simp]: "js_gt (num a) (num b) = (b < a)"
  by (simp add: js_gt_def)

lemma js_le_num [simp]: "js_le (num a) (num b) = (a \<le> b)"
  by (auto simp: js_le_def comparable_def)

lemma js_ge_num [simp]: "js_ge (num a) (num b) = (b \<le> a)"
  by (auto simp: js_ge_def comparable_def)

subsection \<open>The levels a stage can leave\<close>

lemma raise_high_not_med: "preserves (\<lambda>s. level s \<noteq> MED) (raise_high c msg)"
  by (auto simp: preserves_def raise_high_def split: if_splits sum.splits)

lemma no_vram_not_med: "preserves (\<lambda>s. level s \<noteq> MED) (no_vram b)"
  by (auto simp: preserves_def no_vram_def split: if_splits)

lemma high_stage_not_med: "preserves (\<lambda>s. level s \<noteq> MED) (high_stage b t now)"
  unfolding high_stage_def high_checks_def breakfix_checks_def threshold_checks_def
  by (intro run_preserves) (simp add: raise_high_not_med no_vram_not_med guarded_preserves)

lemma high_stage_level:
  assumes "high_stage b t now initial = Inr s"
  shows "level s = LOW \<or> level s = HIGH"
proof -
  have "level initial \<noteq> MED" by (simp add: initial_def)
  from preservesD [OF high_stage_not_med this assms] show ?thesis by (cases "level s") auto
qed

lemma med_stage_level:
  "med_stage b t now s = Inr s' \<Longrightarrow> level s' = level s \<or> level s' = MED"
  by (auto simp: med_stage_def split: sum.splits if_splits)

lemma exempt_stage_level: "level (exempt_stage b s) = level s \<or> level (exempt_stage b s) = MED"
  by (simp add: exempt_stage_def)

subsection \<open>The boundary of a threshold\<close>

text \<open>
  C5, as the program has it. The colour classes are inclusive in favour of the better
  class: a VPH equal to the configured green threshold is \<open>risk-low\<close>, and a VPH equal to
  the configured red threshold, above a green threshold other than 0, is \<open>risk-med\<close>, not
  \<open>risk-high\<close>; so \<open>vphClass(2.5)\<close> and \<open>vphClass(3.5)\<close> under the defaults. In
  \<open>calculateRisk\<close> a boat whose VPH, on a network that counts, equals the configured
  \<open>low_vph\<close>, a number other than 0, fails the LOW requirement: the level is never LOW,
  and it is MED whenever no HIGH trigger fired.
\<close>

theorem boundary_policies:
  assumes vph: "vramSiprRaVph b = num v \<or> (\<not> is_nmci b \<and> vramNiprRaVph b = num v)"
    and low: "js_get (resolve c) ''low_vph'' = num v"
    and nz: "v \<noteq> 0"
    and ret: "calculateRisk b c now = Inr r"
  shows "vphClass (num (5 / 2)) CUndefined = Inr ''risk-low'' \<and>
         vphClass (num (7 / 2)) CUndefined = Inr ''risk-med'' \<and>
         (\<forall>t g. js_get t ''color_vph_green'' = num g \<longrightarrow>
                vphClass (num g) (CObj t) = Inr ''risk-low'') \<and>
         (\<forall>t g d. js_get t ''color_vph_green'' = num g \<longrightarrow> g \<noteq> 0 \<longrightarrow>
                js_get t ''color_vph_red'' = num d \<longrightarrow> g < d \<longrightarrow>
                vphClass (num d) (CObj t) = Inr ''risk-med'') \<and>
         level r \<noteq> LOW \<and>
         (\<forall>s. high_stage b (resolve c) now initial = Inr s \<longrightarrow> level s \<noteq> HIGH \<longrightarrow>
              level r = MED)"
proof -
  have c1: "vphClass (num (5 / 2)) CUndefined = Inr ''risk-low''" by code_simp
  have c2: "vphClass (num (7 / 2)) CUndefined = Inr ''risk-med''" by code_simp
  have c3: "\<forall>t g. js_get t ''color_vph_green'' = num g \<longrightarrow>
                vphClass (num g) (CObj t) = Inr ''risk-low''"
  proof (intro allI impI)
    fix t g assume "js_get t ''color_vph_green'' = num g"
    then show "vphClass (num g) (CObj t) = Inr ''risk-low''"
      by (cases "g = 0") (simp_all add: vphClass_def color_config_def thr_def js_or_def)
  qed
  have c4: "\<forall>t g d. js_get t ''color_vph_green'' = num g \<longrightarrow> g \<noteq> 0 \<longrightarrow>
                js_get t ''color_vph_red'' = num d \<longrightarrow> g < d \<longrightarrow>
                vphClass (num d) (CObj t) = Inr ''risk-med''"
  proof (intro allI impI)
    fix t g d
    assume "js_get t ''color_vph_green'' = num g" and "g \<noteq> 0"
      and "js_get t ''color_vph_red'' = num d" and "g < d"
    then show "vphClass (num d) (CObj t) = Inr ''risk-med''"
      by (cases "d = 0")
         (simp_all add: vphClass_def color_config_def thr_def js_or_def)
  qed
  from low nz have low': "thr (resolve c) ''low_vph'' (5 / 2) = num v"
    by (simp add: thr_def js_or_def)
  from ret obtain s1 s2 s3 where
    s1: "high_stage b (resolve c) now initial = Inr s1" and
    s2: "(if level s1 \<noteq> HIGH then med_stage b (resolve c) now s1 else Inr s1) = Inr s2" and
    s3: "(if level s2 = LOW then low_stage b (resolve c) now s2 else Inr s2) = Inr s3" and
    l: "level r = level (if level s3 = HIGH then exempt_stage b s3 else s3)"
    by (rule calculateRisk_stages)
  have al: "at_least (num v) (num v)" by (simp add: at_least_def)
  have nm: "\<not> meetsLowCriteria b (resolve c) now"
  proof (cases "vramSiprRaVph b = num v")
    case True
    with al low' have "at_least (vramSiprRaVph b) (thr (resolve c) ''low_vph'' (5 / 2))" by simp
    then show ?thesis by (simp add: meetsLowCriteria_def)
  next
    case False
    with vph al low' have "\<not> is_nmci b \<and>
        at_least (vramNiprRaVph b) (thr (resolve c) ''low_vph'' (5 / 2))" by simp
    then show ?thesis by (simp add: meetsLowCriteria_def)
  qed
  have l3: "level s3 \<noteq> LOW"
  proof (cases "level s2 = LOW")
    case True
    with s3 have "low_stage b (resolve c) now s2 = Inr s3" by simp
    from low_stage_level [OF this] nm show ?thesis by simp
  next
    case False
    with s3 show ?thesis by simp
  qed
  have r1: "level r \<noteq> LOW"
    using l l3 exempt_stage_level [of b s3] by (auto split: if_splits)
  have r2: "\<forall>s. high_stage b (resolve c) now initial = Inr s \<longrightarrow> level s \<noteq> HIGH \<longrightarrow>
              level r = MED"
  proof (intro allI impI)
    fix s assume "high_stage b (resolve c) now initial = Inr s" and "level s \<noteq> HIGH"
    with s1 have "level s1 \<noteq> HIGH" by simp
    with high_stage_level [OF s1] have "level s1 = LOW" by simp
    with s2 med_stage_level [of b "resolve c" now s1 s2] have "level s2 = LOW \<or> level s2 = MED"
      by auto
    then have "level s3 = MED"
    proof
      assume a: "level s2 = LOW"
      with s3 have "low_stage b (resolve c) now s2 = Inr s3" by simp
      from low_stage_level [OF this] nm show "level s3 = MED" by simp
    next
      assume "level s2 = MED"
      with s3 show "level s3 = MED" by simp
    qed
    with l show "level r = MED" by simp
  qed
  from c1 c2 c3 c4 r1 r2 show ?thesis by (intro conjI)
qed

theorem boundary_policies_witness:
  "calculateRisk ((createHealthyBoat 0)\<lparr>vramSiprRaVph := num (5 / 2)\<rparr>) CUndefined 0
     = Inr \<lparr>level = MED, reasons = [''SIPR VPH: 2.50'']\<rparr> \<and>
   js_get (resolve CUndefined) ''low_vph'' = num (5 / 2) \<and>
   vphClass (num (5 / 2)) CUndefined = Inr ''risk-low'' \<and>
   vphClass (num (7 / 2)) CUndefined = Inr ''risk-med'' \<and>
   level \<lparr>level = MED, reasons = [''SIPR VPH: 2.50'']\<rparr> \<noteq> LOW"
proof -
  let ?b = "(createHealthyBoat 0)\<lparr>vramSiprRaVph := num (5 / 2)\<rparr>"
  have e: "calculateRisk ?b CUndefined 0 = Inr \<lparr>level = MED, reasons = [''SIPR VPH: 2.50'']\<rparr>"
    by code_simp
  have v: "vramSiprRaVph ?b = num (5 / 2) \<or> (\<not> is_nmci ?b \<and> vramNiprRaVph ?b = num (5 / 2))"
    by simp
  have t: "js_get (resolve CUndefined) ''low_vph'' = num (5 / 2)"
    by code_simp
  have z: "(5 / 2 :: rat) \<noteq> 0" by simp
  from boundary_policies [OF v t z e]
  have "level \<lparr>level = MED, reasons = [''SIPR VPH: 2.50'']\<rparr> \<noteq> LOW"
    and "vphClass (num (5 / 2)) CUndefined = Inr ''risk-low''"
    and "vphClass (num (7 / 2)) CUndefined = Inr ''risk-med''" by blast+
  with e t show ?thesis by (intro conjI)
qed

text \<open>
  With \<open>low_vph\<close> configured as 0 the calculator compares against 2.5 instead (\<open>t.low_vph
  || 2.5\<close>): a boat whose VPH is 0 on both networks, equal to the configured threshold, is
  rated LOW.
\<close>

theorem zero_low_vph_boundary_is_low:
  "js_get (resolve (CObj (defaultThresholds(''low_vph'' \<mapsto> num 0)))) ''low_vph'' = num 0 \<and>
   vramNiprRaVph ((createHealthyBoat 0)\<lparr>vramNiprRaVph := num 0, vramSiprRaVph := num 0\<rparr>) = num 0 \<and>
   vramSiprRaVph ((createHealthyBoat 0)\<lparr>vramNiprRaVph := num 0, vramSiprRaVph := num 0\<rparr>) = num 0 \<and>
   calculateRisk ((createHealthyBoat 0)\<lparr>vramNiprRaVph := num 0, vramSiprRaVph := num 0\<rparr>)
     (CObj (defaultThresholds(''low_vph'' \<mapsto> num 0))) 0 = Inr \<lparr>level = LOW, reasons = []\<rparr>"
  by code_simp

subsection \<open>Texts without the letter V\<close>

lemma plain_simps [simp]:
  "plain []" "plain (c # s) = (c \<noteq> CHR ''V'' \<and> plain s)" "plain (s @ u) = (plain s \<and> plain u)"
  by (auto simp: plain_def)

lemma digit_nth: "k < 10 \<Longrightarrow> ''0123456789'' ! k \<in> set ''0123456789''"
  by (rule nth_mem) simp

lemma digit_plain: "c \<in> set ''0123456789'' \<Longrightarrow> c \<noteq> CHR ''V''"
  by auto

lemma plain_dec: "plain (dec n)"
proof (induction n rule: dec.induct)
  case (1 n)
  show ?case
  proof (cases "n < 10")
    case True
    then have "dec n = [''0123456789'' ! n]" by (simp add: dec.simps [of n])
    with digit_plain [OF digit_nth [OF True]] show ?thesis by simp
  next
    case False
    then have e: "dec n = dec (n div 10) @ [''0123456789'' ! (n mod 10)]"
      by (simp add: dec.simps [of n])
    have "n mod 10 < 10" by simp
    from digit_plain [OF digit_nth [OF this]] "1.IH" [OF False] e show ?thesis by simp
  qed
qed

lemma plain_frac_digits: "0 \<le> r \<Longrightarrow> r < 1 \<Longrightarrow> plain (frac_digits n r)"
proof (induction n arbitrary: r)
  case 0
  then show ?case by simp
next
  case (Suc n)
  let ?d = "\<lfloor>r * 10\<rfloor>"
  from Suc.prems have d0: "0 \<le> ?d" by simp
  from Suc.prems have "r * 10 < 10" by simp
  then have d9: "?d < 10" by (simp add: floor_less_iff)
  from d0 d9 have "nat ?d < 10" by linarith
  from digit_plain [OF digit_nth [OF this]] have c: "''0123456789'' ! nat ?d \<noteq> CHR ''V''" .
  have r0: "0 \<le> r * 10 - of_int ?d" by simp
  have r1: "r * 10 - of_int ?d < 1" by linarith
  from Suc.IH [OF r0 r1] c show ?case by simp
qed

lemma plain_unsigned: "0 \<le> q \<Longrightarrow> plain (unsigned_to_string q)"
proof -
  assume "0 \<le> q"
  have f0: "0 \<le> q - of_int \<lfloor>q\<rfloor>" by simp
  have f1: "q - of_int \<lfloor>q\<rfloor> < 1" by linarith
  from plain_frac_digits [OF f0 f1] show ?thesis
    by (simp add: unsigned_to_string_def Let_def plain_dec)
qed

lemma plain_number_to_string: "plain (number_to_string x)"
  by (cases x) (simp_all add: plain_unsigned)

lemma plain_take: "plain s \<Longrightarrow> plain (take n s)"
  by (auto simp: plain_def dest: in_set_takeD)

lemma plain_drop: "plain s \<Longrightarrow> plain (drop n s)"
  by (auto simp: plain_def dest: in_set_dropD)

lemma plain_replicate: "c \<noteq> CHR ''V'' \<Longrightarrow> plain (replicate n c)"
  by (auto simp: plain_def)

lemma plain_fixed_digits: "plain (fixed_digits d q)"
  by (simp add: fixed_digits_def Let_def plain_dec plain_take plain_drop plain_replicate)

lemma plain_toFixed: "plain (toFixed d x)"
  by (cases x) (simp_all add: plain_unsigned plain_fixed_digits)


lemma in_dropWhile: "c \<in> set xs \<Longrightarrow> \<not> P c \<Longrightarrow> c \<in> set (dropWhile P xs)"
  by (induction xs) auto

lemma plain_trim: "plain (trim s) \<Longrightarrow> plain s"
proof (rule ccontr)
  assume p: "plain (trim s)" and "\<not> plain s"
  then have v: "CHR ''V'' \<in> set s" by (simp add: plain_def)
  have ns: "\<not> is_space (CHR ''V'')" by (simp add: is_space_def)
  from v ns have "CHR ''V'' \<in> set (dropWhile is_space s)" by (rule in_dropWhile)
  then have "CHR ''V'' \<in> set (rev (dropWhile is_space s))" by simp
  from this ns have "CHR ''V'' \<in> set (dropWhile is_space (rev (dropWhile is_space s)))"
    by (rule in_dropWhile)
  then have "CHR ''V'' \<in> set (trim s)" by (simp add: trim_def)
  with p show False by (simp add: plain_def)
qed

lemma not_digit_V: "\<not> is_digit (CHR ''V'')"
  by (simp add: is_digit_def)

lemma plain_digits:
  assumes "list_all is_digit ds"
  shows "plain ds"
proof (rule ccontr)
  assume "\<not> plain ds"
  then have "CHR ''V'' \<in> set ds" by (simp add: plain_def)
  with assms have "is_digit (CHR ''V'')" by (simp add: list_all_iff)
  then show False by (simp add: not_digit_V)
qed

lemma plain_takeWhile_digit: "plain (takeWhile is_digit s)"
proof (rule ccontr)
  assume "\<not> plain (takeWhile is_digit s)"
  then have "CHR ''V'' \<in> set (takeWhile is_digit s)" by (simp add: plain_def)
  then have "is_digit (CHR ''V'')" by (rule set_takeWhileD [THEN conjunct2])
  then show False by (simp add: not_digit_V)
qed

lemma digit_value_V: "digit_value (CHR ''V'') = 16"
  by (simp add: digit_value_def)

lemma plain_radix_digits:
  assumes "list_all (\<lambda>d. digit_value d < b) ds" and "b \<le> 16"
  shows "plain ds"
proof (rule ccontr)
  assume "\<not> plain ds"
  then have "CHR ''V'' \<in> set ds" by (simp add: plain_def)
  with assms(1) have "digit_value (CHR ''V'') < b" by (simp add: list_all_iff)
  with assms(2) show False by (simp add: digit_value_V)
qed

lemma radix_base_le: "radix_base c \<le> 16"
  by (simp add: radix_base_def)

lemma radix_base_V: "radix_base (CHR ''V'') = 0"
  by (simp add: radix_base_def)

lemma plain_radix:
  assumes "radix_literal u = Some q"
  shows "plain u"
proof -
  from assms obtain c0 c ds where u: "u = c0 # c # ds"
    by (cases u; cases "tl u") (simp_all add: radix_literal_def)
  have "c0 = CHR ''0'' \<and> radix_base c \<noteq> 0 \<and> ds \<noteq> [] \<and>
        list_all (\<lambda>d. digit_value d < radix_base c) ds"
  proof (rule ccontr)
    assume "\<not> ?thesis"
    with u have "radix_literal u = None" by (simp add: radix_literal_def)
    with assms show False by simp
  qed
  then have c0: "c0 = CHR ''0''" and c: "radix_base c \<noteq> 0"
    and ds: "list_all (\<lambda>d. digit_value d < radix_base c) ds" by simp_all
  from c have "c \<noteq> CHR ''V''" using radix_base_V by auto
  with c0 plain_radix_digits [OF ds radix_base_le] u show ?thesis by simp
qed

lemma plain_strip_sign: "plain (strip_sign u) \<Longrightarrow> plain u"
  by (cases u) (auto simp: strip_sign_def split: if_splits)

lemma plain_exponent:
  assumes "exponent_part r = Some e"
  shows "plain r"
proof (cases r)
  case Nil
  then show ?thesis by simp
next
  case (Cons c r')
  have "(c = CHR ''e'' \<or> c = CHR ''E'') \<and> list_all is_digit (strip_sign r')"
  proof (rule ccontr)
    assume "\<not> ?thesis"
    with Cons have "exponent_part r = None" by (auto simp: exponent_part_def)
    with assms show False by simp
  qed
  then have c: "c \<noteq> CHR ''V''" and "plain (strip_sign r')"
    by (auto simp: plain_digits)
  then have "plain r'" by (simp add: plain_strip_sign)
  with c Cons show ?thesis by simp
qed

lemma plain_after_point: "after_point r = Some r' \<Longrightarrow> plain r' \<Longrightarrow> plain r"
  by (cases r) (simp_all add: after_point_def split: if_splits)

lemma plain_dropWhile_digit: "plain (dropWhile is_digit s) \<Longrightarrow> plain s"
proof -
  assume "plain (dropWhile is_digit s)"
  with plain_takeWhile_digit [of s] have "plain (takeWhile is_digit s @ dropWhile is_digit s)"
    by (simp only: plain_simps)
  then show ?thesis by (simp only: takeWhile_dropWhile_id)
qed

lemma plain_unsigned_decimal:
  assumes "unsigned_decimal v = Some q"
  shows "plain v"
proof -
  let ?r1 = "dropWhile is_digit v"
  let ?r2 = "case after_point ?r1 of None \<Rightarrow> ?r1 | Some r \<Rightarrow> dropWhile is_digit r"
  have "\<exists>e. exponent_part ?r2 = Some e"
  proof (rule ccontr)
    assume "\<not> ?thesis"
    then have "exponent_part ?r2 = None" by simp
    then have "unsigned_decimal v = None" by (simp add: unsigned_decimal_def Let_def)
    with assms show False by simp
  qed
  then have p2: "plain ?r2" by (auto intro: plain_exponent)
  have "plain ?r1"
  proof (cases "after_point ?r1")
    case None
    with p2 show ?thesis by simp
  next
    case (Some r)
    with p2 have "plain (dropWhile is_digit r)" by simp
    then have "plain r" by (rule plain_dropWhile_digit)
    with Some show ?thesis by (rule plain_after_point)
  qed
  then show ?thesis by (rule plain_dropWhile_digit)
qed

lemma plain_numeric_string:
  assumes "string_to_number s \<noteq> NaN"
  shows "plain s"
proof (rule plain_trim)
  let ?u = "trim s"
  show "plain ?u"
  proof (cases "radix_literal ?u")
    case (Some q)
    then show ?thesis by (rule plain_radix)
  next
    case None
    show ?thesis
    proof (cases "?u = [] \<or> strip_sign ?u = ''Infinity''")
      case True
      then show ?thesis
      proof
        assume "?u = []"
        then show ?thesis by simp
      next
        assume "strip_sign ?u = ''Infinity''"
        then have "plain (strip_sign ?u)" by simp
        then show ?thesis by (rule plain_strip_sign)
      qed
    next
      case False
      have "\<exists>q. unsigned_decimal (strip_sign ?u) = Some q"
      proof (rule ccontr)
        assume "\<not> ?thesis"
        then have "unsigned_decimal (strip_sign ?u) = None" by simp
        with False None have "string_to_number s = NaN"
          by (simp add: string_to_number_def Let_def)
        with assms show False by simp
      qed
      then have "plain (strip_sign ?u)" by (auto intro: plain_unsigned_decimal)
      then show ?thesis by (rule plain_strip_sign)
    qed
  qed
qed

subsection \<open>Reasons of the HIGH stage and the scan-exempt rule\<close>

lemma plain_not_includes [simp]: "plain h \<Longrightarrow> \<not> str_includes h (CHR ''V'' # n)"
  by (induction h) auto

lemma clean_prefixed: "pre \<in> set reason_prefixes \<Longrightarrow> plain x \<Longrightarrow> clean (pre @ x)"
  unfolding reason_prefixes_def by (auto simp: clean_def)

lemma plain_to_string: "(\<And>s. v = JStr s \<Longrightarrow> plain s) \<Longrightarrow> plain (to_string v)"
  by (cases v) (simp_all add: plain_number_to_string)

lemma num_lt_NaN [simp]: "num_lt x NaN = False"
  by (cases x) simp_all

lemma plain_count:
  assumes "count_above v (JNum y)"
  shows "plain (to_string v)"
proof (rule plain_to_string)
  fix s assume v: "v = JStr s"
  show "plain s"
  proof (cases "s = []")
    case True
    then show ?thesis by simp
  next
    case False
    with assms v have "num_lt y (string_to_number s)"
      by (simp add: count_above_def js_or_def js_gt_def js_lt_def)
    then have "string_to_number s \<noteq> NaN" by auto
    then show ?thesis by (rule plain_numeric_string)
  qed
qed

lemma plain_scanAge: "plain (to_string (scanAge now d))"
  by (rule plain_to_string) (simp add: scanAge_def Let_def split: scandate.splits if_splits)

lemma shown_clean:
  "pre \<in> set reason_prefixes \<Longrightarrow> plain (to_string v) \<Longrightarrow> plain post \<Longrightarrow>
   clean_msg (shown pre v post)"
  by (simp add: shown_def clean_msg_def clean_prefixed)

lemma fixed_clean:
  "pre \<in> set reason_prefixes \<Longrightarrow> plain post \<Longrightarrow> clean_msg (fixed pre v d post)"
  by (cases v) (simp_all add: fixed_def call_toFixed_def clean_msg_def clean_prefixed plain_toFixed)

lemma raise_high_clean:
  "(c \<longrightarrow> clean_msg msg) \<Longrightarrow> preserves others_clean (raise_high c msg)"
  by (auto simp: preserves_def raise_high_def others_clean_def clean_msg_def
      split: if_splits sum.splits)

lemma raise_high_conj:
  "preserves P (raise_high c msg) \<Longrightarrow> preserves P (raise_high (d \<and> c) msg)"
  by (cases d) (simp_all add: preserves_def raise_high_def)

lemma count_step_clean:
  "is_number y \<Longrightarrow> pre \<in> set reason_prefixes \<Longrightarrow>
   preserves others_clean (raise_high (count_above v y) (shown pre v []))"
  by (rule raise_high_clean) (auto simp: is_number_def intro: shown_clean plain_count)

lemma fixed_step_clean:
  "pre \<in> set reason_prefixes \<Longrightarrow> plain post \<Longrightarrow>
   preserves others_clean (raise_high c (fixed pre v d post))"
  by (rule raise_high_clean) (simp add: fixed_clean)

lemma age_step_clean:
  "pre \<in> set reason_prefixes \<Longrightarrow>
   preserves others_clean (raise_high c (shown pre (scanAge now d) ''d''))"
  "pre \<in> set reason_prefixes \<Longrightarrow>
   preserves others_clean (raise_high c (shown pre (nAge b now) ''d''))"
  by (rule raise_high_clean; simp add: shown_clean plain_scanAge nAge_def)+

lemma no_vram_clean: "preserves others_clean (no_vram b)"
  by (auto simp: preserves_def no_vram_def others_clean_def split: if_splits)

lemma in_reason_prefixes [simp]:
  "''NIPR Breakfix: '' \<in> set reason_prefixes" "''SIPR Breakfix: '' \<in> set reason_prefixes"
  "''NIPR Prod: '' \<in> set reason_prefixes" "''SIPR Prod: '' \<in> set reason_prefixes"
  "''NIPR VPH: '' \<in> set reason_prefixes" "''SIPR VPH: '' \<in> set reason_prefixes"
  "''NIPR Scan: '' \<in> set reason_prefixes" "''SIPR Scan: '' \<in> set reason_prefixes"
  "''NIPR True Policy: '' \<in> set reason_prefixes" "''SIPR True Policy: '' \<in> set reason_prefixes"
  "''NIPR Raw Policy: '' \<in> set reason_prefixes" "''SIPR Raw Policy: '' \<in> set reason_prefixes"
  "''TAMs: '' \<in> set reason_prefixes"
  by (simp_all add: reason_prefixes_def)

lemma is_number_num [simp]: "is_number (JNum x)"
  by (simp add: is_number_def)

lemma breakfix_checks_clean: "list_all (preserves others_clean) (breakfix_checks b)"
  unfolding breakfix_checks_def
  by (simp add: raise_high_conj count_step_clean)

lemma threshold_checks_clean:
  assumes "is_number (thr t ''high_tam_past_due'' 20)"
  shows "list_all (preserves others_clean) (threshold_checks b t now)"
  unfolding threshold_checks_def sAge_def
  by (simp add: raise_high_conj guarded_preserves count_step_clean fixed_step_clean
      age_step_clean assms)

lemma high_stage_clean:
  assumes "is_number (thr t ''high_tam_past_due'' 20)"
  shows "preserves others_clean (high_stage b t now)"
  unfolding high_stage_def high_checks_def
  by (intro run_preserves)
     (simp add: breakfix_checks_clean threshold_checks_clean [OF assms] no_vram_clean)

lemma run_append:
  "run (fs @ gs) s = (case run fs s of Inl e \<Rightarrow> Inl e | Inr s' \<Rightarrow> run gs s')"
  by (induction fs arbitrary: s) (auto split: sum.splits)

lemma raise_high_idle_or_grows [simp]: "idle_or_grows (raise_high c msg)"
  by (cases c) (auto simp: idle_or_grows_def idle_def grows_def raise_high_def split: sum.splits)

lemma run_idle_or_grows: "list_all idle_or_grows fs \<Longrightarrow> idle_or_grows (run fs)"
proof (induction fs)
  case Nil
  then show ?case by (simp add: idle_or_grows_def idle_def)
next
  case (Cons f fs)
  then have f: "idle f \<or> grows f" and r: "idle (run fs) \<or> grows (run fs)"
    by (simp_all add: idle_or_grows_def)
  from f show ?case
  proof
    assume i: "idle f"
    from r show ?thesis
    proof
      assume "idle (run fs)"
      with i show ?thesis by (simp add: idle_or_grows_def idle_def)
    next
      assume "grows (run fs)"
      with i have "grows (run (f # fs))" by (simp add: idle_def grows_def)
      then show ?thesis unfolding idle_or_grows_def ..
    qed
  next
    assume g: "grows f"
    have "grows (run (f # fs))"
      unfolding grows_def
    proof (intro allI impI)
      fix s s' assume "run (f # fs) s = Inr s'"
      then obtain s1 where s1: "f s = Inr s1" and e: "run fs s1 = Inr s'"
        by (auto split: sum.splits)
      from g s1 have l: "length (reasons s) < length (reasons s1)" by (simp add: grows_def)
      from r e have "length (reasons s1) \<le> length (reasons s')"
        by (auto simp: idle_def grows_def dest: less_imp_le)
      with l show "length (reasons s) < length (reasons s')" by simp
    qed
    then show ?thesis unfolding idle_or_grows_def ..
  qed
qed

lemma guarded_idle_or_grows: "list_all idle_or_grows fs \<Longrightarrow> idle_or_grows (guarded c fs)"
  using run_idle_or_grows [of fs]
  by (cases c) (auto simp: guarded_def idle_or_grows_def idle_def grows_def)

lemma breakfix_idle_or_grows: "idle_or_grows (run (breakfix_checks b))"
  by (rule run_idle_or_grows) (simp add: breakfix_checks_def)

lemma threshold_idle_or_grows: "idle_or_grows (run (threshold_checks b t now))"
  by (rule run_idle_or_grows) (simp add: threshold_checks_def guarded_idle_or_grows)

lemma not_shrinking:
  "idle_or_grows f \<Longrightarrow> f s = Inr s' \<Longrightarrow> length (reasons s) \<le> length (reasons s')"
  by (auto simp: idle_or_grows_def idle_def grows_def dest: less_imp_le)

lemma idle_if_same_length:
  assumes "idle_or_grows f" and "f s = Inr s'" and "length (reasons s') \<le> length (reasons s)"
  shows "idle f"
proof (rule ccontr)
  assume "\<not> idle f"
  with assms(1) have "grows f" by (simp add: idle_or_grows_def)
  with assms(2) have "length (reasons s) < length (reasons s')" by (simp add: grows_def)
  with assms(3) show False by simp
qed

lemma other_checks_idle:
  assumes "run (other_high_checks b t now) initial = Inr initial"
  shows "idle (run (breakfix_checks b))" and "idle (run (threshold_checks b t now))"
proof -
  from assms obtain m where m: "run (breakfix_checks b) initial = Inr m"
    and f: "run (threshold_checks b t now) m = Inr initial"
    by (auto simp: other_high_checks_def run_append split: sum.splits)
  from not_shrinking [OF threshold_idle_or_grows f]
  have "length (reasons m) \<le> length (reasons initial)" .
  from idle_if_same_length [OF breakfix_idle_or_grows m this]
  show i: "idle (run (breakfix_checks b))" .
  with m have "m = initial" by (simp add: idle_def)
  with f have "run (threshold_checks b t now) initial = Inr initial" by simp
  from idle_if_same_length [OF threshold_idle_or_grows this]
  show "idle (run (threshold_checks b t now))" by simp
qed

lemma high_stage_only_no_vram:
  assumes "run (other_high_checks b t now) initial = Inr initial"
  shows "high_stage b t now initial = no_vram b initial"
proof -
  from other_checks_idle [OF assms]
  have i: "\<And>u. run (breakfix_checks b) u = Inr u"
    and j: "\<And>u. run (threshold_checks b t now) u = Inr u"
    by (simp_all add: idle_def)
  show ?thesis
    by (simp add: high_stage_def high_checks_def run_append i j split: sum.splits)
qed

lemma exempt_flags: 
  "vramNiprScanExempt b = JBool True \<Longrightarrow> vramSiprScanExempt b = JBool True \<Longrightarrow>
   truthy (isScanExempt b)"
  by (simp add: isScanExempt_def js_and_def js_or_def)

lemma no_data_includes: "str_includes ''No VRAM data'' ''VRAM data''"
  by code_simp

lemma downgrade:
  assumes n: "\<not> hasAnyVramData b \<or> (is_nmci b \<and> \<not> hasSiprVramData b)"
    and o: "run (other_high_checks b (resolve c) now) initial = Inr initial"
    and x: "truthy (isScanExempt b)"
  shows "calculateRisk b c now = Inr \<lparr>level = MED, reasons = [''No VRAM data'', ''Scan Exempt'']\<rparr>"
proof -
  have "high_stage b (resolve c) now initial = no_vram b initial"
    by (rule high_stage_only_no_vram [OF o])
  also from n have "\<dots> = Inr \<lparr>level = HIGH, reasons = [''No VRAM data''], highDueToNoScans = True\<rparr>"
    by (simp add: no_vram_def initial_def)
  finally show ?thesis using x
    by (simp add: calculateRisk_def exempt_stage_def no_data_includes)
qed

lemma blocked:
  assumes t: "is_number (thr (resolve c) ''high_tam_past_due'' 20)"
    and h: "high_stage b (resolve c) now initial = Inr s"
    and x: "\<exists>x\<in>set (reasons s). x \<noteq> ''No VRAM data''"
  shows "calculateRisk b c now = Inr \<lparr>level = HIGH, reasons = reasons s\<rparr>"
proof -
  have "others_clean initial" by (simp add: others_clean_def initial_def)
  from preservesD [OF high_stage_clean [OF t] this h] x
  have "\<exists>x\<in>set (reasons s). \<not> str_includes x ''VRAM data''"
    by (auto simp: others_clean_def clean_def)
  then have e: "exempt_stage b s = s"
    by (auto simp: exempt_stage_def list_all_iff)
  have "low_inv initial" by (simp add: low_inv_def initial_def)
  from preservesD [OF high_stage_low_inv this h] x have "level s \<noteq> LOW"
    by (auto simp: low_inv_def)
  with high_stage_level [OF h] have l: "level s = HIGH" by simp
  show ?thesis by (simp add: calculateRisk_def h l e)
qed

lemma null_vram:
  "(vramSiprScanDate b = DateNull \<and> vramSiprRaVph b = JNull \<and> vramSiprAssets b = JNull \<and>
    (is_nmci b \<or>
     (vramNiprScanDate b = DateNull \<and> vramNiprRaVph b = JNull \<and> vramNiprAssets b = JNull)))
   = (\<not> hasAnyVramData b \<or> (is_nmci b \<and> \<not> hasSiprVramData b))"
  by (auto simp: hasAnyVramData_def hasNiprVramData_def hasSiprVramData_def)




subsection \<open>Boats in NMCI mode\<close>

lemma raise_high_False [simp]: "raise_high False msg = Inr"
  by (simp add: raise_high_def fun_eq_iff)

lemma count_med_False [simp]: "count_med False msg = Inr"
  by (simp add: count_med_def fun_eq_iff)

lemma push_reason_False [simp]: "push_reason False msg = Inr"
  by (simp add: push_reason_def fun_eq_iff)

lemma preserves_Inr [simp]: "preserves P Inr"
  by (simp add: preserves_def)

lemma not_nipr_text: "pre \<noteq> [] \<Longrightarrow> hd pre \<noteq> CHR ''N'' \<Longrightarrow> \<not> prefix ''NIPR'' (pre @ x)"
  by (cases pre) simp_all

lemma no_nipr_shown [simp]:
  "pre \<noteq> [] \<Longrightarrow> hd pre \<noteq> CHR ''N'' \<Longrightarrow> no_nipr_msg (shown pre v post)"
  by (simp add: no_nipr_msg_def shown_def not_nipr_text)

lemma no_nipr_fixed [simp]:
  "pre \<noteq> [] \<Longrightarrow> hd pre \<noteq> CHR ''N'' \<Longrightarrow> no_nipr_msg (fixed pre v d post)"
  by (simp add: no_nipr_msg_def fixed_def not_nipr_text split: sum.splits)

lemma raise_high_no_nipr:
  "no_nipr_msg msg \<Longrightarrow> preserves (\<lambda>s. no_nipr (reasons s)) (raise_high c msg)"
  by (auto simp: preserves_def raise_high_def no_nipr_def no_nipr_msg_def
      split: if_splits sum.splits)

lemma push_reason_no_nipr:
  "no_nipr_msg msg \<Longrightarrow> preserves (\<lambda>s. no_nipr (reasons s)) (push_reason c msg)"
  by (auto simp: preserves_def push_reason_def no_nipr_def no_nipr_msg_def
      split: if_splits sum.splits)

lemma count_med_no_nipr:
  "no_nipr_msg msg \<Longrightarrow> preserves (\<lambda>m. no_nipr (medReasons m)) (count_med c msg)"
  by (auto simp: preserves_def count_med_def no_nipr_def no_nipr_msg_def
      split: if_splits sum.splits)

lemma no_vram_no_nipr: "preserves (\<lambda>s. no_nipr (reasons s)) (no_vram b)"
  by (auto simp: preserves_def no_vram_def no_nipr_def split: if_splits)

lemma high_stage_no_nipr:
  assumes "is_nmci b"
  shows "preserves (\<lambda>s. no_nipr (reasons s)) (high_stage b t now)"
  unfolding high_stage_def high_checks_def breakfix_checks_def threshold_checks_def
  using assms
  by (intro run_preserves)
     (simp add: raise_high_no_nipr no_vram_no_nipr guarded_preserves)

lemma med_checks_no_nipr:
  assumes "is_nmci b"
  shows "preserves (\<lambda>m. no_nipr (medReasons m)) (run (med_checks b t now))"
  unfolding med_checks_def using assms
  by (intro run_preserves) (simp add: count_med_no_nipr guarded_preserves)

lemma med_stage_no_nipr:
  assumes "is_nmci b"
  shows "preserves (\<lambda>s. no_nipr (reasons s)) (med_stage b t now)"
  unfolding preserves_def
proof (intro allI impI)
  fix s s' assume n: "no_nipr (reasons s)" and e: "med_stage b t now s = Inr s'"
  from e obtain m where m: "run (med_checks b t now) \<lparr>medConditionCount = 0, medReasons = []\<rparr> = Inr m"
    and s': "s' = (if 2 \<le> medConditionCount m
               then s\<lparr>level := MED, reasons := reasons s @ medReasons m\<rparr> else s)"
    by (auto simp: med_stage_def split: sum.splits)
  have "no_nipr (medReasons \<lparr>medConditionCount = 0, medReasons = []\<rparr>)" by (simp add: no_nipr_def)
  from preservesD [OF med_checks_no_nipr [OF assms] this m] have "no_nipr (medReasons m)" .
  with n s' show "no_nipr (reasons s')" by (auto simp: no_nipr_def)
qed

lemma low_stage_no_nipr:
  assumes "is_nmci b"
  shows "preserves (\<lambda>s. no_nipr (reasons s)) (low_stage b t now)"
  unfolding preserves_def
proof (intro allI impI)
  fix s s' assume n: "no_nipr (reasons s)" and e: "low_stage b t now s = Inr s'"
  have p: "preserves (\<lambda>s. no_nipr (reasons s)) (run (low_reasons b t now))"
    unfolding low_reasons_def using assms
    by (intro run_preserves) (simp add: push_reason_no_nipr)
  show "no_nipr (reasons s')"
  proof (cases "meetsLowCriteria b t now")
    case True
    with e n show ?thesis by (simp add: low_stage_def)
  next
    case False
    with e have r: "run (low_reasons b t now) (s\<lparr>level := MED\<rparr>) = Inr s'"
      by (simp add: low_stage_def)
    from n have "no_nipr (reasons (s\<lparr>level := MED\<rparr>))" by simp
    from preservesD [OF p this r] show ?thesis .
  qed
qed

lemma exempt_stage_no_nipr: "no_nipr (reasons s) \<Longrightarrow> no_nipr (reasons (exempt_stage b s))"
  by (simp add: exempt_stage_def no_nipr_def)

lemma nmci_no_nipr_reason:
  assumes "is_nmci b" and "calculateRisk b c now = Inr r"
  shows "no_nipr (reasons r)"
proof -
  from assms(2) obtain s1 s2 s3 where
    s1: "high_stage b (resolve c) now initial = Inr s1" and
    s2: "(if level s1 \<noteq> HIGH then med_stage b (resolve c) now s1 else Inr s1) = Inr s2" and
    s3: "(if level s2 = LOW then low_stage b (resolve c) now s2 else Inr s2) = Inr s3" and
    r: "reasons r = reasons (if level s3 = HIGH then exempt_stage b s3 else s3)"
    by (rule calculateRisk_stages)
  have "no_nipr (reasons initial)" by (simp add: no_nipr_def initial_def)
  from preservesD [OF high_stage_no_nipr [OF assms(1)] this s1] have 1: "no_nipr (reasons s1)" .
  from s2 1 preservesD [OF med_stage_no_nipr [OF assms(1)], of s1 "resolve c" now s2]
  have 2: "no_nipr (reasons s2)" by (auto split: if_splits)
  from s3 2 preservesD [OF low_stage_no_nipr [OF assms(1)], of s2 "resolve c" now s3]
  have 3: "no_nipr (reasons s3)" by (auto split: if_splits)
  with r show ?thesis by (simp add: exempt_stage_no_nipr)
qed


lemma nmci_high_checks:
  assumes "is_nmci b"
  shows "high_checks (b\<lparr>essNiprBreakfix := va, essNiprProductCompliance := vb,
           essNiprPolicyEnforced := vc, essNiprTruePolicy := vd, vramNiprAssets := ve,
           vramNiprScanDate := d, vramNiprRaVph := vf\<rparr>) t now = high_checks b t now"
  using assms
  by (simp add: high_checks_def breakfix_checks_def threshold_checks_def is_nmci_def nAge_def
      sAge_def no_vram_def fun_eq_iff hasAnyVramData_def hasNiprVramData_def hasSiprVramData_def)

lemma nmci_med_checks:
  assumes "is_nmci b"
  shows "med_checks (b\<lparr>essNiprBreakfix := va, essNiprProductCompliance := vb,
           essNiprPolicyEnforced := vc, essNiprTruePolicy := vd, vramNiprAssets := ve,
           vramNiprScanDate := d, vramNiprRaVph := vf\<rparr>) t now = med_checks b t now"
  using assms
  by (simp add: med_checks_def is_nmci_def nAge_def sAge_def)

lemma nmci_meets:
  assumes "is_nmci b"
  shows "meetsLowCriteria (b\<lparr>essNiprBreakfix := va, essNiprProductCompliance := vb,
           essNiprPolicyEnforced := vc, essNiprTruePolicy := vd, vramNiprAssets := ve,
           vramNiprScanDate := d, vramNiprRaVph := vf\<rparr>) t now = meetsLowCriteria b t now"
  using assms
  by (simp add: meetsLowCriteria_def is_nmci_def nAge_def sAge_def)

lemma nmci_low_reasons:
  assumes "is_nmci b"
  shows "low_reasons (b\<lparr>essNiprBreakfix := va, essNiprProductCompliance := vb,
           essNiprPolicyEnforced := vc, essNiprTruePolicy := vd, vramNiprAssets := ve,
           vramNiprScanDate := d, vramNiprRaVph := vf\<rparr>) t now = low_reasons b t now"
  using assms
  by (simp add: low_reasons_def is_nmci_def nAge_def sAge_def)

lemma nmci_exempt:
  "exempt_stage (b\<lparr>essNiprBreakfix := va, essNiprProductCompliance := vb,
           essNiprPolicyEnforced := vc, essNiprTruePolicy := vd, vramNiprAssets := ve,
           vramNiprScanDate := d, vramNiprRaVph := vf\<rparr>) = exempt_stage b"
  by (simp add: exempt_stage_def isScanExempt_def fun_eq_iff)

lemma nmci_same_result:
  assumes "is_nmci b"
  shows "calculateRisk (b\<lparr>essNiprBreakfix := va, essNiprProductCompliance := vb,
           essNiprPolicyEnforced := vc, essNiprTruePolicy := vd, vramNiprAssets := ve,
           vramNiprScanDate := d, vramNiprRaVph := vf\<rparr>) c now = calculateRisk b c now"
  unfolding calculateRisk_def Let_def high_stage_def med_stage_def low_stage_def
    nmci_high_checks [OF assms] nmci_med_checks [OF assms] nmci_meets [OF assms]
    nmci_low_reasons [OF assms] nmci_exempt ..

text \<open>
  C4, as amended. For a boat in NMCI mode (\<open>isNmci\<close> is \<open>true\<close>) the result of
  \<open>calculateRisk\<close>, level and reasons, does not change when the NIPR fields
  \<open>essNiprBreakfix\<close>, \<open>essNiprProductCompliance\<close>, \<open>essNiprPolicyEnforced\<close>,
  \<open>essNiprTruePolicy\<close>, \<open>vramNiprAssets\<close>, \<open>vramNiprScanDate\<close> and \<open>vramNiprRaVph\<close> are
  replaced by any values, and no reason returned starts with \<open>NIPR\<close>. The NIPR
  scan-exempt flag is not among these fields: the scan-exempt rule reads it.
\<close>

theorem nmci_ignores_nipr:
  assumes "is_nmci b"
  shows "calculateRisk (b\<lparr>essNiprBreakfix := va, essNiprProductCompliance := vb,
           essNiprPolicyEnforced := vc, essNiprTruePolicy := vd, vramNiprAssets := ve,
           vramNiprScanDate := d, vramNiprRaVph := vf\<rparr>) c now = calculateRisk b c now \<and>
         (\<forall>r. calculateRisk b c now = Inr r \<longrightarrow> (\<forall>x\<in>set (reasons r). \<not> prefix ''NIPR'' x))"
  using nmci_same_result [OF assms] nmci_no_nipr_reason [OF assms]
  by (simp add: no_nipr_def)

theorem nmci_ignores_nipr_witness:
  "calculateRisk ((createNmciBoat 0)\<lparr>vramSiprRaVph := num 4, essSiprProductCompliance := num 90,
       essNiprBreakfix := num 5, essNiprProductCompliance := JStr ''10'',
       essNiprPolicyEnforced := num 10, essNiprTruePolicy := JNum PosInf,
       vramNiprAssets := JNull, vramNiprScanDate := DateNull, vramNiprRaVph := num 50\<rparr>)
     CUndefined 0
   = Inr \<lparr>level = MED, reasons = [''SIPR VPH: 4.00'', ''SIPR Prod: 90.0%'']\<rparr> \<and>
   list_all (\<lambda>x. \<not> prefix ''NIPR'' x) [''SIPR VPH: 4.00'', ''SIPR Prod: 90.0%'']"
proof -
  let ?b = "(createNmciBoat 0)\<lparr>vramSiprRaVph := num 4, essSiprProductCompliance := num 90\<rparr>"
  have n: "is_nmci ?b" by code_simp
  have e: "calculateRisk ?b CUndefined 0
      = Inr \<lparr>level = MED, reasons = [''SIPR VPH: 4.00'', ''SIPR Prod: 90.0%'']\<rparr>"
    by code_simp
  from nmci_ignores_nipr [OF n, where va = "num 5" and vb = "JStr ''10''" and vc = "num 10"
      and vd = "JNum PosInf" and ve = JNull and d = DateNull and vf = "num 50"
      and c = CUndefined and now = 0] e
  show ?thesis by (simp add: list_all_iff)
qed

text \<open>
  C4 as stated fails on the NIPR scan-exempt flag: of two NMCI boats without SIPR VRAM
  data that differ in \<open>vramNiprScanExempt\<close> only, the one with the flag is MED and the
  other is HIGH.
\<close>

theorem nmci_nipr_exempt_flag_changes_tier:
  "is_nmci ((createNmciBoat 0)\<lparr>vramSiprAssets := JNull, vramSiprScanDate := DateNull,
       vramSiprRaVph := JNull, vramSiprScanExempt := JBool True,
       vramNiprScanExempt := JBool True\<rparr>) \<and>
   calculateRisk ((createNmciBoat 0)\<lparr>vramSiprAssets := JNull, vramSiprScanDate := DateNull,
       vramSiprRaVph := JNull, vramSiprScanExempt := JBool True,
       vramNiprScanExempt := JBool True\<rparr>) CUndefined 0
     = Inr \<lparr>level = MED, reasons = [''No VRAM data'', ''Scan Exempt'']\<rparr> \<and>
   calculateRisk ((createNmciBoat 0)\<lparr>vramSiprAssets := JNull, vramSiprScanDate := DateNull,
       vramSiprRaVph := JNull, vramSiprScanExempt := JBool True,
       vramNiprScanExempt := JBool False\<rparr>) CUndefined 0
     = Inr \<lparr>level = HIGH, reasons = [''No VRAM data'']\<rparr>"
  by code_simp

subsection \<open>Grouping by a field\<close>

lemma map_of_push:
  "map_of (map (\<lambda>e. if fst e = k then (k, snd e @ [b]) else e) xs) k' =
     (if k' = k then map_option (\<lambda>g. g @ [b]) (map_of xs k) else map_of xs k')"
  by (induction xs) auto

lemma groupBoatsBy_loop_buckets:
  "groupBoatsBy_loop field bs g0 = Inr gs \<Longrightarrow>
   map_of gs k =
     (case map_of g0 k of
        Some g \<Rightarrow> Some (g @ bucket_of field k bs)
      | None \<Rightarrow> if bucket_of field k bs = [] then None else Some (bucket_of field k bs))"
proof (induction bs arbitrary: g0)
  case Nil
  then show ?case by (simp add: bucket_of_def split: option.splits)
next
  case (Cons b bs)
  let ?key = "bucket_key field b"
  obtain g1 where g1: "groupBoatsBy_loop field bs g1 = Inr gs"
    and step: "map_of g1 k =
      (if k = ?key then Some ((case map_of g0 ?key of None \<Rightarrow> [] | Some g \<Rightarrow> g) @ [b])
       else map_of g0 k)"
  proof (cases "map_of g0 ?key")
    case (Some g)
    let ?g1 = "map (\<lambda>e. if fst e = ?key then (?key, snd e @ [b]) else e) g0"
    from Cons.prems Some have "groupBoatsBy_loop field bs ?g1 = Inr gs" by (simp add: Let_def)
    moreover from Some have "map_of ?g1 k =
      (if k = ?key then Some ((case map_of g0 ?key of None \<Rightarrow> [] | Some g \<Rightarrow> g) @ [b])
       else map_of g0 k)" by (simp add: map_of_push)
    ultimately show ?thesis by (rule that)
  next
    case None
    let ?g1 = "g0 @ [(?key, [b])]"
    from Cons.prems None have "groupBoatsBy_loop field bs ?g1 = Inr gs"
      by (simp add: Let_def split: if_splits)
    moreover from None have "map_of ?g1 k =
      (if k = ?key then Some ((case map_of g0 ?key of None \<Rightarrow> [] | Some g \<Rightarrow> g) @ [b])
       else map_of g0 k)" by (simp add: map_add_def split: option.splits)
    ultimately show ?thesis by (rule that)
  qed
  show ?case
  proof (cases "k = ?key")
    case True
    with Cons.IH [OF g1] step show ?thesis
      by (simp add: bucket_of_def split: option.splits)
  next
    case False
    with Cons.IH [OF g1] step show ?thesis
      by (simp add: bucket_of_def split: option.splits)
  qed
qed

lemma groupBoatsBy_buckets:
  assumes "groupBoatsBy bs field = Inr gs"
  shows "map_of gs k = (if bucket_of field k bs = [] then None else Some (bucket_of field k bs))"
  using groupBoatsBy_loop_buckets [of field bs "[]" gs k] assms by (simp add: groupBoatsBy_def)

lemma falsy_key: "\<not> truthy v \<Longrightarrow> to_string (js_or v (JStr ''Unknown'')) = ''Unknown''"
  by (simp add: js_or_def)

text \<open>
  C10. \<open>groupBoatsBy\<close> puts a boat under \<open>Unknown\<close> whenever the selected field is falsy:
  not only for \<open>null\<close> and \<open>undefined\<close> but also for \<open>0\<close>, the empty string, \<open>false\<close> and
  \<open>NaN\<close>. Such a boat is in the bucket \<open>Unknown\<close> of the result and in no other bucket, so
  a key that is the number 0 or the empty string never makes a group of its own.
\<close>

theorem falsy_values_bucket_unknown:
  assumes "groupBoatsBy bs field = Inr gs"
  shows "(\<forall>b\<in>set bs. \<not> truthy (field b) \<longrightarrow>
            (\<exists>g. map_of gs ''Unknown'' = Some g \<and> b \<in> set g)) \<and>
         (\<forall>k g b. map_of gs k = Some g \<longrightarrow> b \<in> set g \<longrightarrow> \<not> truthy (field b) \<longrightarrow>
            k = ''Unknown'') \<and>
         (\<forall>b v. v \<in> set [num 0, JStr [], JBool False, JNum NaN, JNull, JUndefined] \<longrightarrow>
            field b = v \<longrightarrow> bucket_key field b = ''Unknown'')"
proof (intro conjI ballI allI impI)
  fix b assume b: "b \<in> set bs" and f: "\<not> truthy (field b)"
  then have "b \<in> set (bucket_of field ''Unknown'' bs)"
    by (simp add: bucket_of_def bucket_key_def falsy_key)
  with groupBoatsBy_buckets [OF assms, of "''Unknown''"]
  show "\<exists>g. map_of gs ''Unknown'' = Some g \<and> b \<in> set g" by auto
next
  fix k g b assume "map_of gs k = Some g" and b: "b \<in> set g" and f: "\<not> truthy (field b)"
  with groupBoatsBy_buckets [OF assms, of k] have "g = bucket_of field k bs"
    by (simp split: if_splits)
  with b have "bucket_key field b = k" by (simp add: bucket_of_def)
  with f show "k = ''Unknown''" by (simp add: bucket_key_def falsy_key)
next
  fix b v assume "v \<in> set [num 0, JStr [], JBool False, JNum NaN, JNull, JUndefined]"
    and "field b = v"
  then have "\<not> truthy (field b)" by auto
  then show "bucket_key field b = ''Unknown''" by (simp add: bucket_key_def falsy_key)
qed

theorem falsy_values_bucket_unknown_witness:
  "groupBoatsBy [(createHealthyBoat 0)\<lparr>isic := num 0\<rparr>, (createHealthyBoat 0)\<lparr>isic := JStr ''A''\<rparr>,
       (createHealthyBoat 0)\<lparr>isic := JStr []\<rparr>] isic =
     Inr [(''Unknown'', [(createHealthyBoat 0)\<lparr>isic := num 0\<rparr>, (createHealthyBoat 0)\<lparr>isic := JStr []\<rparr>]),
          (''A'', [(createHealthyBoat 0)\<lparr>isic := JStr ''A''\<rparr>])] \<and>
   (\<exists>g. map_of [(''Unknown'', [(createHealthyBoat 0)\<lparr>isic := num 0\<rparr>, (createHealthyBoat 0)\<lparr>isic := JStr []\<rparr>]),
          (''A'', [(createHealthyBoat 0)\<lparr>isic := JStr ''A''\<rparr>])] ''Unknown'' = Some g \<and>
        (createHealthyBoat 0)\<lparr>isic := num 0\<rparr> \<in> set g)"
proof -
  let ?b0 = "(createHealthyBoat 0)\<lparr>isic := num 0\<rparr>"
  let ?bA = "(createHealthyBoat 0)\<lparr>isic := JStr ''A''\<rparr>"
  let ?bE = "(createHealthyBoat 0)\<lparr>isic := JStr []\<rparr>"
  let ?gs = "[(''Unknown'', [?b0, ?bE]), (''A'', [?bA])]"
  have e: "groupBoatsBy [?b0, ?bA, ?bE] isic = Inr ?gs" by code_simp
  have "?b0 \<in> set [?b0, ?bA, ?bE]" and "\<not> truthy (isic ?b0)" by simp_all
  with falsy_values_bucket_unknown [OF e]
  have "\<exists>g. map_of ?gs ''Unknown'' = Some g \<and> ?b0 \<in> set g" by blast
  with e show ?thesis by (intro conjI)
qed

subsection \<open>Rounding to a double\<close>

lemma to_double_not_NaN [simp]: "to_double q \<noteq> NaN"
  by (simp add: to_double_def Let_def)

lemma floor_log2_bounds:
  "1 \<le> n \<Longrightarrow> 0 \<le> floor_log2 n \<and> 2 ^ nat (floor_log2 n) \<le> n \<and> n < 2 * 2 ^ nat (floor_log2 n)"
proof (induction n rule: floor_log2.induct)
  case (1 n)
  show ?case
  proof (cases "n < 2")
    case True
    with "1.prems" have "n = 1" by simp
    then show ?thesis by (simp add: floor_log2.simps [of 1])
  next
    case False
    then have h: "1 \<le> n div 2" by simp
    from "1.IH" [OF False h] have a: "0 \<le> floor_log2 (n div 2)"
      and b: "2 ^ nat (floor_log2 (n div 2)) \<le> n div 2"
      and c: "n div 2 < 2 * 2 ^ nat (floor_log2 (n div 2))" by simp_all
    from False have e: "floor_log2 n = 1 + floor_log2 (n div 2)"
      by (simp add: floor_log2.simps [of n])
    from a have p: "(2::int) ^ nat (1 + floor_log2 (n div 2)) = 2 * 2 ^ nat (floor_log2 (n div 2))"
      by (simp add: nat_add_distrib)
    from b have "2 * 2 ^ nat (floor_log2 (n div 2)) \<le> n" by linarith
    moreover from c have "n < 2 * (2 * 2 ^ nat (floor_log2 (n div 2)))" by linarith
    ultimately show ?thesis using a e p by simp
  qed
qed

lemma round_half_even_int [simp]: "round_half_even (of_int k) = k"
  by (simp add: round_half_even_def)

lemma binary_exponent_int:
  assumes "m \<noteq> 0"
  shows "binary_exponent (of_int m) = floor_log2 \<bar>m\<bar>"
proof -
  from assms have p: "1 \<le> \<bar>m\<bar>" by simp
  have q: "quotient_of \<bar>of_int m :: rat\<bar> = (\<bar>m\<bar>, 1)"
  proof -
    have "\<bar>of_int m :: rat\<bar> = of_int \<bar>m\<bar>" by simp
    then show ?thesis by (simp only: quotient_of_int [unfolded Rat.of_int_def])
  qed
  from floor_log2_bounds [OF p] have a: "0 \<le> floor_log2 \<bar>m\<bar>"
    and b: "2 ^ nat (floor_log2 \<bar>m\<bar>) \<le> \<bar>m\<bar>" by simp_all
  from b have "(of_int (2 ^ nat (floor_log2 \<bar>m\<bar>)) :: rat) \<le> of_int \<bar>m\<bar>"
    by (simp only: of_int_le_iff)
  then have "pow2 (floor_log2 \<bar>m\<bar>) \<le> \<bar>of_int m\<bar>"
    using a by (simp add: pow2_def)
  then show ?thesis
    by (simp add: binary_exponent_def q floor_log2.simps [of 1] Let_def)
qed

lemma to_double_int:
  assumes "\<bar>m\<bar> < 2 ^ 53"
  shows "to_double (of_int m) = Fin (of_int m)"
proof (cases "m = 0")
  case True
  then show ?thesis by (simp add: to_double_def)
next
  case False
  then have p: "1 \<le> \<bar>m\<bar>" by simp
  let ?e = "floor_log2 \<bar>m\<bar>"
  from floor_log2_bounds [OF p] have a: "0 \<le> ?e" and b: "2 ^ nat ?e \<le> \<bar>m\<bar>" by simp_all
  from b assms have lt: "(2::int) ^ nat ?e < 2 ^ 53" by linarith
  have "nat ?e < 53"
  proof (rule ccontr)
    assume "\<not> nat ?e < 53"
    then have "53 \<le> nat ?e" by simp
    then have "(2::int) ^ 53 \<le> 2 ^ nat ?e" by (rule power_increasing) simp
    with lt show False by linarith
  qed
  with a have e: "?e \<le> 52" by linarith
  let ?k = "nat (52 - max ?e (- 1022))"
  from a e have u: "pow2 (max ?e (- 1022) - 52) = 1 / 2 ^ ?k"
    by (auto simp: pow2_def max_def)
  have "(of_int m :: rat) / (1 / 2 ^ ?k) = of_int (m * 2 ^ ?k)" by simp
  then have r: "round_half_even (of_int m / (1 / 2 ^ ?k)) = m * 2 ^ ?k"
    by (simp only: round_half_even_int)
  have v: "(of_int (m * 2 ^ ?k) :: rat) * (1 / 2 ^ ?k) = of_int m" by simp
  from e have n: "\<not> 1024 \<le> ?e" and l: "?e < 1024" by simp_all
  show ?thesis
    unfolding to_double_def Let_def binary_exponent_int [OF False] u r v
    using False n l by simp
qed

lemma num_add_int:
  assumes "\<bar>k + m\<bar> < 2 ^ 53"
  shows "num_add (Fin (of_int k)) (Fin (of_int m)) = Fin (of_int (k + m))"
proof -
  have "num_add (Fin (of_int k)) (Fin (of_int m)) = to_double (of_int (k + m))" by simp
  with to_double_int [OF assms] show ?thesis by simp
qed

lemma double_sum_ints:
  "\<bar>k\<bar> + sum_list (map abs ms) < 2 ^ 53 \<Longrightarrow>
   foldl (\<lambda>s q. num_add s (Fin q)) (Fin (of_int k)) (map of_int ms) = Fin (of_int (k + sum_list ms))"
proof (induction ms arbitrary: k)
  case Nil
  then show ?case by simp
next
  case (Cons m ms)
  have "\<bar>k + m\<bar> \<le> \<bar>k\<bar> + \<bar>m\<bar>" by simp
  moreover have "0 \<le> sum_list (map abs ms)" by (rule sum_list_nonneg) auto
  ultimately have a: "\<bar>k + m\<bar> < 2 ^ 53" and b: "\<bar>k + m\<bar> + sum_list (map abs ms) < 2 ^ 53"
    using Cons.prems by simp_all
  from Cons.IH [OF b] num_add_int [OF a] show ?case by (simp add: add.assoc)
qed

lemma wholeD:
  assumes "whole q"
  shows "of_int \<lfloor>q\<rfloor> = q" and "\<bar>\<lfloor>q\<rfloor>\<bar> \<le> 1000"
proof -
  from assms have a: "of_int \<lfloor>q\<rfloor> = q" and b: "\<bar>q\<bar> \<le> 1000" unfolding whole_def by blast+
  show "of_int \<lfloor>q\<rfloor> = q" by (rule a)
  from b have "q \<le> 1000" and "- 1000 \<le> q" by linarith+
  then have "\<lfloor>q\<rfloor> \<le> 1000" and "- 1000 \<le> \<lfloor>q\<rfloor>" by linarith+
  then show "\<bar>\<lfloor>q\<rfloor>\<bar> \<le> 1000" by linarith
qed

lemma whole_list:
  "list_all whole qs \<Longrightarrow> map of_int (map floor qs) = qs"
  "list_all whole qs \<Longrightarrow> sum_list (map abs (map floor qs)) \<le> 1000 * int (length qs)"
proof (induction qs)
  case Nil
  { case 1 show ?case by simp }
  { case 2 show ?case by simp }
next
  case (Cons q qs)
  { case 1
    then have w: "whole q" and r: "list_all whole qs" by simp_all
    from wholeD(1) [OF w] Cons.IH(1) [OF r] show ?case by (simp del: of_int_floor_cancel) }
  { case 2
    then have w: "whole q" and r: "list_all whole qs" by simp_all
    from wholeD(2) [OF w] Cons.IH(2) [OF r] show ?case by simp }
qed

lemma double_sum_whole:
  assumes "list_all whole qs" and "length qs \<le> 2 ^ 40"
  shows "double_sum qs = Fin (sum_list qs)"
proof -
  let ?ms = "map floor qs"
  from whole_list [OF assms(1)] have q: "map of_int ?ms = qs"
    and s: "sum_list (map abs ?ms) \<le> 1000 * int (length qs)" by simp_all
  from assms(2) have "int (length qs) \<le> 2 ^ 40" by (simp add: of_nat_le_iff [symmetric] del: of_nat_le_iff)
  with s have "\<bar>0::int\<bar> + sum_list (map abs ?ms) < 2 ^ 53" by simp
  from double_sum_ints [OF this]
  have "foldl (\<lambda>s q. num_add s (Fin q)) (Fin 0) (map of_int ?ms) = Fin (of_int (sum_list ?ms))"
    by simp
  also have "(of_int (sum_list ?ms) :: rat) = sum_list (map of_int ?ms)"
    by (induction qs) simp_all
  finally show ?thesis unfolding double_sum_def q .
qed

lemma double_mean_whole:
  assumes "list_all whole qs" and "length qs \<le> 2 ^ 40"
  shows "double_mean qs = rounded_mean qs"
  by (simp add: double_mean_def rounded_mean_def double_sum_whole [OF assms] div_count_def)

lemma sum_not_NaN:
  "s \<noteq> NaN \<Longrightarrow> foldl (\<lambda>s q. num_add s (Fin q)) s qs \<noteq> NaN"
proof (induction qs arbitrary: s)
  case Nil
  then show ?case by simp
next
  case (Cons q qs)
  from Cons.prems have "num_add s (Fin q) \<noteq> NaN" by (cases s) simp_all
  from Cons.IH [OF this] show ?case by simp
qed

lemma double_mean_proper: "proper_number (double_mean qs)"
proof (cases "qs = []")
  case True
  then show ?thesis by (simp add: double_mean_def proper_number_def)
next
  case False
  have "double_sum qs \<noteq> NaN" unfolding double_sum_def by (rule sum_not_NaN) simp
  then have "div_count (JNum (double_sum qs)) (length qs) \<noteq> NaN"
    by (cases "double_sum qs") (simp_all add: div_count_def)
  then have "proper_number (min100 (div_count (JNum (double_sum qs)) (length qs)))"
    by (cases "div_count (JNum (double_sum qs)) (length qs)")
       (simp_all add: min100_def proper_number_def)
  with False show ?thesis by (simp add: double_mean_def)
qed

subsection \<open>The averages of aggregateByISIC\<close>

lemma null_or_finite_iff: "null_or_finite v = (v = JNull \<or> (\<exists>q. v = num q))"
  by (auto simp: null_or_finite_def split: jsval.splits jsnum.splits)

lemma foldl_proj:
  "(\<And>a b. p (step a b) = g (p a) b) \<Longrightarrow> p (foldl step a bs) = foldl g (p a) bs"
  by (induction bs arbitrary: a) simp_all

lemma js_add_num [simp]: "js_add (JNum s) (num q) = JNum (num_add s (Fin q))"
  by (simp add: js_add_def is_text_def)

lemma reported_Cons:
  "reported f (b # bs) = (case f b of JNum (Fin q) \<Rightarrow> [q] | _ \<Rightarrow> []) @ reported f bs"
  by (simp add: reported_def)

lemma sum_fold:
  assumes "list_all (\<lambda>b. null_or_finite (f b)) bs"
  shows "foldl (add_if c f) (JNum s) bs
           = JNum (foldl (\<lambda>s q. num_add s (Fin q)) s (reported f (filter c bs)))"
  using assms
proof (induction bs arbitrary: s)
  case Nil
  then show ?case by (simp add: reported_def)
next
  case (Cons b bs)
  then have t: "null_or_finite (f b)" and r: "list_all (\<lambda>b. null_or_finite (f b)) bs" by simp_all
  show ?case
  proof (cases "c b \<and> f b \<noteq> JNull")
    case True
    with t obtain q where q: "f b = num q" by (auto simp: null_or_finite_iff)
    with True Cons.IH [OF r, of "num_add s (Fin q)"] show ?thesis
      by (simp add: add_if_def reported_Cons)
  next
    case False
    with t Cons.IH [OF r, of s] show ?thesis
      by (auto simp: add_if_def reported_Cons null_or_finite_iff)
  qed
qed

lemma count_fold:
  assumes "list_all (\<lambda>b. null_or_finite (f b)) bs"
  shows "foldl (count_if c f) n bs = n + length (reported f (filter c bs))"
  using assms
proof (induction bs arbitrary: n)
  case Nil
  then show ?case by (simp add: reported_def)
next
  case (Cons b bs)
  then have t: "null_or_finite (f b)" and r: "list_all (\<lambda>b. null_or_finite (f b)) bs" by simp_all
  show ?case
  proof (cases "c b \<and> f b \<noteq> JNull")
    case True
    with t obtain q where q: "f b = num q" by (auto simp: null_or_finite_iff)
    with True Cons.IH [OF r, of "Suc n"] show ?thesis
      by (simp add: count_if_def reported_Cons)
  next
    case False
    with t Cons.IH [OF r, of n] show ?thesis
      by (auto simp: count_if_def reported_Cons null_or_finite_iff)
  qed
qed

lemma capped_average_mean:
  "capped_average (JNum (double_sum qs)) (length qs) = double_mean qs"
  by (simp add: capped_average_def double_mean_def)

lemma tally_hit:
  "nProdSum (tally v nProdSum_update nProdCnt_update a) = (if v \<noteq> JNull then js_add (nProdSum a) v else nProdSum a)"
  "nPolSum (tally v nPolSum_update nPolCnt_update a) = (if v \<noteq> JNull then js_add (nPolSum a) v else nPolSum a)"
  "nPolRawSum (tally v nPolRawSum_update nPolRawCnt_update a) = (if v \<noteq> JNull then js_add (nPolRawSum a) v else nPolRawSum a)"
  "sProdSum (tally v sProdSum_update sProdCnt_update a) = (if v \<noteq> JNull then js_add (sProdSum a) v else sProdSum a)"
  "sPolSum (tally v sPolSum_update sPolCnt_update a) = (if v \<noteq> JNull then js_add (sPolSum a) v else sPolSum a)"
  "sPolRawSum (tally v sPolRawSum_update sPolRawCnt_update a) = (if v \<noteq> JNull then js_add (sPolRawSum a) v else sPolRawSum a)"
  "nProdCnt (tally v nProdSum_update nProdCnt_update a) = (if v \<noteq> JNull then Suc (nProdCnt a) else nProdCnt a)"
  "nPolCnt (tally v nPolSum_update nPolCnt_update a) = (if v \<noteq> JNull then Suc (nPolCnt a) else nPolCnt a)"
  "nPolRawCnt (tally v nPolRawSum_update nPolRawCnt_update a) = (if v \<noteq> JNull then Suc (nPolRawCnt a) else nPolRawCnt a)"
  "sProdCnt (tally v sProdSum_update sProdCnt_update a) = (if v \<noteq> JNull then Suc (sProdCnt a) else sProdCnt a)"
  "sPolCnt (tally v sPolSum_update sPolCnt_update a) = (if v \<noteq> JNull then Suc (sPolCnt a) else sPolCnt a)"
  "sPolRawCnt (tally v sPolRawSum_update sPolRawCnt_update a) = (if v \<noteq> JNull then Suc (sPolRawCnt a) else sPolRawCnt a)"
  by (simp_all add: tally_def)

lemma tally_miss:
  "(\<And>f a. p (su f a) = p a) \<Longrightarrow> (\<And>f a. p (cu f a) = p a) \<Longrightarrow> p (tally v su cu a) = p a"
  by (simp add: tally_def)

lemma count_risk_miss:
  "(\<And>f a. p (highRiskCount_update f a) = p a) \<Longrightarrow> (\<And>f a. p (medRiskCount_update f a) = p a) \<Longrightarrow>
   (\<And>f a. p (lowRiskCount_update f a) = p a) \<Longrightarrow> p (count_risk b a) = p a"
  by (simp add: count_risk_def)

lemma count_exempt_miss:
  "(\<And>f a. p (scanExemptCount_update f a) = p a) \<Longrightarrow> p (count_exempt b a) = p a"
  by (simp add: count_exempt_def)

lemma agg_step_sums:
  "nProdSum (agg_step a b) = add_if uses_nipr essNiprProductCompliance (nProdSum a) b"
  "nPolSum (agg_step a b) = add_if uses_nipr essNiprTruePolicy (nPolSum a) b"
  "nPolRawSum (agg_step a b) = add_if uses_nipr essNiprPolicyEnforced (nPolRawSum a) b"
  "sProdSum (agg_step a b) = add_if (\<lambda>b. True) essSiprProductCompliance (sProdSum a) b"
  "sPolSum (agg_step a b) = add_if (\<lambda>b. True) essSiprTruePolicy (sPolSum a) b"
  "sPolRawSum (agg_step a b) = add_if (\<lambda>b. True) essSiprPolicyEnforced (sPolRawSum a) b"
  by (simp_all add: agg_step_def seq_def unless_nmci_def tally_hit tally_miss count_risk_miss
      count_exempt_miss add_if_def uses_nipr_def)

lemma agg_step_counts:
  "nProdCnt (agg_step a b) = count_if uses_nipr essNiprProductCompliance (nProdCnt a) b"
  "nPolCnt (agg_step a b) = count_if uses_nipr essNiprTruePolicy (nPolCnt a) b"
  "nPolRawCnt (agg_step a b) = count_if uses_nipr essNiprPolicyEnforced (nPolRawCnt a) b"
  "sProdCnt (agg_step a b) = count_if (\<lambda>b. True) essSiprProductCompliance (sProdCnt a) b"
  "sPolCnt (agg_step a b) = count_if (\<lambda>b. True) essSiprTruePolicy (sPolCnt a) b"
  "sPolRawCnt (agg_step a b) = count_if (\<lambda>b. True) essSiprPolicyEnforced (sPolRawCnt a) b"
  by (simp_all add: agg_step_def seq_def unless_nmci_def tally_hit tally_miss count_risk_miss
      count_exempt_miss count_if_def uses_nipr_def)

lemma agg_step_fixed:
  "boatCount (agg_step a b) = boatCount a" "isicName (agg_step a b) = isicName a"
  "isicShort (agg_step a b) = isicShort a" "agg_tycom (agg_step a b) = agg_tycom a"
  by (simp_all add: agg_step_def seq_def unless_nmci_def tally_miss count_risk_miss
      count_exempt_miss)

lemma typed_fields:
  assumes "list_all typed_compliance bs"
  shows "list_all (\<lambda>b. null_or_finite (essNiprProductCompliance b)) bs"
    "list_all (\<lambda>b. null_or_finite (essNiprTruePolicy b)) bs"
    "list_all (\<lambda>b. null_or_finite (essNiprPolicyEnforced b)) bs"
    "list_all (\<lambda>b. null_or_finite (essSiprProductCompliance b)) bs"
    "list_all (\<lambda>b. null_or_finite (essSiprTruePolicy b)) bs"
    "list_all (\<lambda>b. null_or_finite (essSiprPolicyEnforced b)) bs"
  using assms by (simp_all add: list_all_iff typed_compliance_def compliance_fields_def)

lemma loop_average:
  assumes "list_all (\<lambda>b. null_or_finite (f b)) bs"
    and "\<And>a b. psum (agg_step a b) = add_if c f (psum a) b"
    and "\<And>a b. pcnt (agg_step a b) = count_if c f (pcnt a) b"
    and "psum a = num 0" and "pcnt a = 0"
  shows "capped_average (psum (foldl agg_step a bs)) (pcnt (foldl agg_step a bs))
           = double_mean (reported f (filter c bs))"
proof -
  have "psum (foldl agg_step a bs) = foldl (add_if c f) (psum a) bs"
    by (rule foldl_proj) (rule assms(2))
  with assms(4) sum_fold [OF assms(1), of c "Fin 0"]
  have s: "psum (foldl agg_step a bs) = JNum (double_sum (reported f (filter c bs)))"
    by (simp add: double_sum_def)
  have "pcnt (foldl agg_step a bs) = foldl (count_if c f) (pcnt a) bs"
    by (rule foldl_proj) (rule assms(3))
  with assms(5) count_fold [OF assms(1), of c 0]
  have n: "pcnt (foldl agg_step a bs) = length (reported f (filter c bs))" by simp
  show ?thesis unfolding s n by (rule capped_average_mean)
qed

lemma aggregate_group_averages:
  assumes "list_all typed_compliance (boats g)"
  shows "averages (aggregate_group g) = spec_averages (boats g)"
  unfolding averages_def spec_averages_def aggregate_group_def Let_def on_nipr_def
  using loop_average [OF typed_fields(1) [OF assms] agg_step_sums(1) agg_step_counts(1), of "agg_start g"]
    loop_average [OF typed_fields(2) [OF assms] agg_step_sums(2) agg_step_counts(2), of "agg_start g"]
    loop_average [OF typed_fields(3) [OF assms] agg_step_sums(3) agg_step_counts(3), of "agg_start g"]
    loop_average [OF typed_fields(4) [OF assms] agg_step_sums(4) agg_step_counts(4), of "agg_start g"]
    loop_average [OF typed_fields(5) [OF assms] agg_step_sums(5) agg_step_counts(5), of "agg_start g"]
    loop_average [OF typed_fields(6) [OF assms] agg_step_sums(6) agg_step_counts(6), of "agg_start g"]
  by (simp add: agg_start_def)

lemma aggregate_group_fixed:
  "boatCount (aggregate_group g) = length (boats g)"
  "isicName (aggregate_group g) = isic_name g"
  "agg_tycom (aggregate_group g) = isic_tycom g"
proof -
  have "boatCount (foldl agg_step a bs) = boatCount a" for a bs
    by (induction bs rule: rev_induct) (simp_all add: agg_step_fixed)
  then show "boatCount (aggregate_group g) = length (boats g)"
    by (simp add: aggregate_group_def Let_def agg_start_def)
  have "isicName (foldl agg_step a bs) = isicName a" for a bs
    by (induction bs rule: rev_induct) (simp_all add: agg_step_fixed)
  then show "isicName (aggregate_group g) = isic_name g"
    by (simp add: aggregate_group_def Let_def agg_start_def)
  have "agg_tycom (foldl agg_step a bs) = agg_tycom a" for a bs
    by (induction bs rule: rev_induct) (simp_all add: agg_step_fixed)
  then show "agg_tycom (aggregate_group g) = isic_tycom g"
    by (simp add: aggregate_group_def Let_def agg_start_def)
qed

lemma members_snoc:
  "members k (bs @ [b]) = (if group_key b = k then members k bs @ [b] else members k bs)"
  by (simp add: members_def)

lemma members_empty:
  assumes "list_all (\<lambda>b. map_of groups (group_key b) \<noteq> None) seen"
    and "map_of groups k = None"
  shows "members k seen = []"
proof -
  have "group_key b \<noteq> k" if "b \<in> set seen" for b
    using assms that by (auto simp: list_all_iff)
  then show ?thesis by (simp add: members_def filter_empty_conv)
qed

lemma isic_info_for_name:
  assumes "isic_info_for isics b = Inr i"
  shows "isic_name i = isic b"
proof (cases "find (\<lambda>i. strict_eq (isic_name i) (isic b)) isics")
  case None
  with assms show ?thesis
    by (cases "isic b") (auto simp: isic_info_for_def)
next
  case (Some j)
  then have "strict_eq (isic_name j) (isic b)" by (auto simp: find_Some_iff)
  with Some assms show ?thesis by (auto simp: isic_info_for_def strict_eq_def)
qed

lemma map_of_grow:
  "(map_of (map (\<lambda>e. if fst e = k then (k, (snd e)\<lparr>boats := boats (snd e) @ [b]\<rparr>) else e) groups) k' = None)
     = (map_of groups k' = None)"
  by (induction groups) auto

lemma map_fst_grow:
  "map fst (map (\<lambda>e. if fst e = k then (k, (snd e)\<lparr>boats := boats (snd e) @ [b]\<rparr>) else e) groups)
     = map fst groups"
  by (induction groups) auto

lemma add_to_group_grouped:
  assumes "add_to_group isics b groups = Inr groups'" and "grouped seen groups"
  shows "grouped (seen @ [b]) groups'"
proof (cases "map_of groups (group_key b)")
  case (Some g)
  with assms(1) have g': "groups' = map (\<lambda>e. if fst e = group_key b
      then (group_key b, (snd e)\<lparr>boats := boats (snd e) @ [b]\<rparr>) else e) groups"
    by (simp add: add_to_group_def Let_def)
  from assms(2) have 0: "distinct (map fst groups')"
    unfolding g' map_fst_grow by (simp add: grouped_def)
  have 1: "list_all (\<lambda>e. boats (snd e) = members (fst e) (seen @ [b]) \<and> boats (snd e) \<noteq> [] \<and>
                    fst e = to_string (isic_name (snd e))) groups'"
    using assms(2) unfolding g' grouped_def list_all_iff by (auto simp: members_snoc)
  from assms(2) have h: "\<forall>x\<in>set seen. map_of groups (group_key x) \<noteq> None"
    unfolding grouped_def list_all_iff by blast
  have 2: "list_all (\<lambda>b. map_of groups' (group_key b) \<noteq> None) (seen @ [b])"
    using h Some unfolding g' list_all_iff map_of_grow by simp
  from 0 1 2 show ?thesis by (simp add: grouped_def)
next
  case None
  with assms(1) obtain i where i: "isic_info_for isics b = Inr i"
    and g': "groups' = groups @ [(group_key b, \<lparr>isic_name = isic_name i,
        isic_short = isic_short i, isic_tycom = isic_tycom i, boats = [b]\<rparr>)]"
    by (auto simp: add_to_group_def Let_def split: if_splits sum.splits)
  from assms(2) have "list_all (\<lambda>b. map_of groups (group_key b) \<noteq> None) seen"
    unfolding grouped_def by blast
  from members_empty [OF this None] have e: "members (group_key b) seen = []" .
  have ne: "fst e \<noteq> group_key b" if "e \<in> set groups" for e
    using None that by (metis map_of_eq_None_iff image_eqI)
  from assms(2) have d: "distinct (map fst groups)" unfolding grouped_def by blast
  from None have nk: "group_key b \<notin> set (map fst groups)"
    by (simp add: map_of_eq_None_iff)
  from d nk have 0: "distinct (map fst groups')" unfolding g' by simp
  have 1: "list_all (\<lambda>e. boats (snd e) = members (fst e) (seen @ [b]) \<and> boats (snd e) \<noteq> [] \<and>
                    fst e = to_string (isic_name (snd e))) groups'"
    using assms(2) e ne isic_info_for_name [OF i] unfolding g' grouped_def list_all_iff
    by (auto simp: members_snoc)
  from assms(2) have h: "\<forall>x\<in>set seen. map_of groups (group_key x) \<noteq> None"
    unfolding grouped_def list_all_iff by blast
  have 2: "list_all (\<lambda>b. map_of groups' (group_key b) \<noteq> None) (seen @ [b])"
    using h unfolding g' list_all_iff
    by (auto simp: map_add_def map_of_append split: option.splits)
  from 0 1 2 show ?thesis by (simp add: grouped_def)
qed

lemma group_boats_grouped:
  "group_boats isics bs groups = Inr gs \<Longrightarrow> grouped seen groups \<Longrightarrow> grouped (seen @ bs) gs"
proof (induction bs arbitrary: groups seen)
  case Nil
  then show ?case by simp
next
  case (Cons b bs)
  from Cons.prems(1) obtain groups' where a: "add_to_group isics b groups = Inr groups'"
    and r: "group_boats isics bs groups' = Inr gs"
    by (auto split: sum.splits)
  from Cons.IH [OF r add_to_group_grouped [OF a Cons.prems(2)]] show ?case by simp
qed

lemma set_own_values: "set (own_values obj) = snd ` set obj"
  by (auto simp: own_values_def)

lemma members_typed:
  "list_all typed_compliance bs \<Longrightarrow> list_all typed_compliance (members k bs)"
  by (simp add: members_def list_all_iff)

lemma distinct_own_values:
  assumes "distinct (map fst obj)"
  shows "distinct (map fst (sort_key k (filter P obj) @ filter (\<lambda>e. \<not> P e) obj))"
proof -
  from assms have d: "distinct obj" and i: "inj_on fst (set obj)" by (simp_all add: distinct_map)
  have "distinct (sort_key k (filter P obj) @ filter (\<lambda>e. \<not> P e) obj)" using d by auto
  moreover have "inj_on fst (set (sort_key k (filter P obj) @ filter (\<lambda>e. \<not> P e) obj))"
    by (rule inj_on_subset [OF i]) auto
  ultimately show ?thesis by (simp only: distinct_map)
qed

lemma grouped_aggregates:
  assumes g: "grouped bs groups" and t: "list_all typed_compliance bs"
  shows "aggregates_of bs (map aggregate_group (own_values groups))"
proof -
  let ?l = "sort_key (\<lambda>e. digits_value 10 (fst e)) (filter (\<lambda>e. is_array_index (fst e)) groups) @
          filter (\<lambda>e. \<not> is_array_index (fst e)) groups"
  have l: "set ?l = set groups" by auto
  from g have d: "distinct (map fst groups)"
    and e0: "\<forall>e\<in>set groups. boats (snd e) = members (fst e) bs \<and> boats (snd e) \<noteq> [] \<and>
                    fst e = to_string (isic_name (snd e))"
    and h0: "\<forall>b\<in>set bs. map_of groups (group_key b) \<noteq> None"
    unfolding grouped_def list_all_iff by blast+
  from e0 have e: "boats (snd e) = members (fst e) bs \<and> boats (snd e) \<noteq> [] \<and>
                    fst e = to_string (isic_name (snd e))" if "e \<in> set groups" for e
    using that by blast
  from h0 have h: "map_of groups (group_key b) \<noteq> None" if "b \<in> set bs" for b
    using that by blast
  have k: "map agg_key (map aggregate_group (own_values groups)) = map fst ?l"
    unfolding own_values_def using e l by (auto simp: agg_key_def aggregate_group_fixed)
  have 1: "distinct (map agg_key (map aggregate_group (own_values groups)))"
    unfolding k using d by (rule distinct_own_values)
  have 2: "set (map agg_key (map aggregate_group (own_values groups))) = set (map group_key bs)"
  proof -
    have "fst ` set groups = group_key ` set bs"
    proof (intro equalityI subsetI)
      fix x assume "x \<in> fst ` set groups"
      then obtain e where m: "e \<in> set groups" and x: "x = fst e" by auto
      from e [OF m] have a: "boats (snd e) = members (fst e) bs" and b: "boats (snd e) \<noteq> []"
        by blast+
      from b have "members x bs \<noteq> []" unfolding a x .
      then obtain b where "b \<in> set (members x bs)" by (cases "members x bs") auto
      then show "x \<in> group_key ` set bs" by (auto simp: members_def)
    next
      fix x assume "x \<in> group_key ` set bs"
      then obtain b where b: "b \<in> set bs" and x: "x = group_key b" by auto
      from h [OF b] show "x \<in> fst ` set groups"
        by (auto simp: x dest: map_of_SomeD intro: rev_image_eqI)
    qed
    then show ?thesis unfolding k by (simp only: set_map l)
  qed
  have "\<forall>a\<in>set (map aggregate_group (own_values groups)).
          boatCount a = length (members (agg_key a) bs) \<and>
          averages a = spec_averages (members (agg_key a) bs) \<and>
          list_all proper_number (averages a)"
  proof
    fix a assume "a \<in> set (map aggregate_group (own_values groups))"
    then obtain x where m: "x \<in> set groups" and a: "a = aggregate_group (snd x)"
      by (auto simp: set_own_values)
    from e [OF m] have b: "boats (snd x) = members (agg_key a) bs"
      by (simp add: a agg_key_def aggregate_group_fixed)
    from members_typed [OF t] b have "list_all typed_compliance (boats (snd x))" by simp
    from aggregate_group_averages [OF this] b
    have v: "averages a = spec_averages (members (agg_key a) bs)" by (simp add: a)
    have "list_all proper_number (spec_averages ms)" for ms
      by (simp add: spec_averages_def double_mean_proper)
    with v b show "boatCount a = length (members (agg_key a) bs) \<and>
                     averages a = spec_averages (members (agg_key a) bs) \<and>
                     list_all proper_number (averages a)"
      by (simp add: a aggregate_group_fixed)
  qed
  then have 3: "list_all (\<lambda>a. boatCount a = length (members (agg_key a) bs) \<and>
                     averages a = spec_averages (members (agg_key a) bs) \<and>
                     list_all proper_number (averages a)) (map aggregate_group (own_values groups))"
    unfolding list_all_iff .
  from 1 2 3 show ?thesis unfolding aggregates_of_def by (intro conjI)
qed

lemma aggregateByISIC_aggregates:
  assumes "list_all typed_compliance bs" and "aggregateByISIC bs isics = Inr r"
  shows "\<exists>aggs. csl r = filter (\<lambda>a. agg_tycom a = JStr ''CSL'') aggs \<and>
                csp r = filter (\<lambda>a. agg_tycom a = JStr ''CSP'') aggs \<and> aggregates_of bs aggs"
proof -
  from assms(2) obtain groups where g: "group_boats isics bs [] = Inr groups"
    and r: "r = \<lparr>csl = filter (\<lambda>a. agg_tycom a = JStr ''CSL'') (map aggregate_group (own_values groups)),
                 csp = filter (\<lambda>a. agg_tycom a = JStr ''CSP'') (map aggregate_group (own_values groups))\<rparr>"
    by (auto simp: aggregateByISIC_def Let_def split: sum.splits)
  have "grouped [] []" by (simp add: grouped_def)
  from group_boats_grouped [OF g this] have "grouped bs groups" by simp
  from grouped_aggregates [OF this assms(1)] r show ?thesis by auto
qed

lemma aggregate_nothing:
  "aggregateByISIC [] isics = Inr \<lparr>csl = [], csp = []\<rparr>"
  by (simp add: aggregateByISIC_def own_values_def)

lemma stats_nothing:
  "calculateStats [] = \<lparr>highRiskCount = 0, medRiskCount = 0, lowRiskCount = 0, scanExemptCount = 0,
      totalBoats = 0, totalBreakfix = num 0, avgVph = num 0, avgCompliance = num 0\<rparr>"
  by (simp add: calculateStats_def)

text \<open>
  C7, as the program has it. For boats whose compliance fields are typed as the data
  model types them (a number or \<open>null\<close>), \<open>aggregateByISIC\<close> builds one record for the
  group of every boat, none twice, and returns those of the type commands CSL and CSP.
  The record of a group counts its boats, and each of its six averages is the mean, in
  double arithmetic, of the values that the boats of the group report for the field (the
  boats on NMCI left out for the three NIPR averages): the values are added from left to
  right, each sum rounded to a double, the last sum is divided by their number, and the
  quotient is capped at 100. The average is the number 0 when no boat reports a value,
  and it is never \<open>NaN\<close>. When the values are whole numbers up to 1000 in size, fewer than
  \<open>2^40\<close> of them, the sums are exact and the average is the arithmetic mean, rounded once
  and capped. Aggregating no boat returns no group, and \<open>calculateStats\<close> of no boat
  returns zero counts and zero averages. Two boats of one group with NIPR product
  compliance 90 and 100 have the group average 95.
\<close>

theorem group_averages_are_double_means:
  "(list_all typed_compliance bs \<and> aggregateByISIC bs isics = Inr r \<longrightarrow>
      (\<exists>aggs. csl r = filter (\<lambda>a. agg_tycom a = JStr ''CSL'') aggs \<and>
              csp r = filter (\<lambda>a. agg_tycom a = JStr ''CSP'') aggs \<and>
              aggregates_of bs aggs)) \<and>
   (list_all whole qs \<and> length qs \<le> 2 ^ 40 \<longrightarrow> double_mean qs = rounded_mean qs) \<and>
   double_mean [] = num 0 \<and>
   aggregateByISIC [] isics = Inr \<lparr>csl = [], csp = []\<rparr> \<and>
   calculateStats [] =
     \<lparr>highRiskCount = 0, medRiskCount = 0, lowRiskCount = 0, scanExemptCount = 0,
      totalBoats = 0, totalBreakfix = num 0, avgVph = num 0, avgCompliance = num 0\<rparr> \<and>
   aggregateByISIC [(createHealthyBoat 0)\<lparr>essNiprProductCompliance := num 90\<rparr>,
                    (createHealthyBoat 0)\<lparr>essNiprProductCompliance := num 100\<rparr>] [] =
     Inr \<lparr>csl = [\<lparr>highRiskCount = 0, medRiskCount = 0, lowRiskCount = 2, scanExemptCount = 0,
                  isicName = JStr ''COMSUBRON 1'', isicShort = JStr ''COMSUB'',
                  agg_tycom = JStr ''CSL'', boatCount = 2,
                  niprBreakfixSum = num 0, siprBreakfixSum = num 0,
                  niprProdCompAvg = num 95, niprPolEnfAvg = JNum (to_double (9604 / 100)),
                  niprPolRawAvg = num 98, siprProdCompAvg = num 99,
                  siprPolEnfAvg = JNum (to_double (9801 / 100)), siprPolRawAvg = num 99\<rparr>],
          csp = []\<rparr>"
proof (intro conjI impI)
  assume "list_all typed_compliance bs \<and> aggregateByISIC bs isics = Inr r"
  then show "\<exists>aggs. csl r = filter (\<lambda>a. agg_tycom a = JStr ''CSL'') aggs \<and>
              csp r = filter (\<lambda>a. agg_tycom a = JStr ''CSP'') aggs \<and>
              aggregates_of bs aggs"
    using aggregateByISIC_aggregates [of bs isics r] by blast
next
  assume "list_all whole qs \<and> length qs \<le> 2 ^ 40"
  then show "double_mean qs = rounded_mean qs"
    using double_mean_whole [of qs] by blast
next
  show "double_mean [] = num 0" by (simp add: double_mean_def)
next
  show "aggregateByISIC [] isics = Inr \<lparr>csl = [], csp = []\<rparr>" by (rule aggregate_nothing)
next
  show "calculateStats [] =
     \<lparr>highRiskCount = 0, medRiskCount = 0, lowRiskCount = 0, scanExemptCount = 0,
      totalBoats = 0, totalBreakfix = num 0, avgVph = num 0, avgCompliance = num 0\<rparr>"
    by (rule stats_nothing)
next
  show "aggregateByISIC [(createHealthyBoat 0)\<lparr>essNiprProductCompliance := num 90\<rparr>,
                    (createHealthyBoat 0)\<lparr>essNiprProductCompliance := num 100\<rparr>] [] =
     Inr \<lparr>csl = [\<lparr>highRiskCount = 0, medRiskCount = 0, lowRiskCount = 2, scanExemptCount = 0,
                  isicName = JStr ''COMSUBRON 1'', isicShort = JStr ''COMSUB'',
                  agg_tycom = JStr ''CSL'', boatCount = 2,
                  niprBreakfixSum = num 0, siprBreakfixSum = num 0,
                  niprProdCompAvg = num 95, niprPolEnfAvg = JNum (to_double (9604 / 100)),
                  niprPolRawAvg = num 98, siprProdCompAvg = num 99,
                  siprPolEnfAvg = JNum (to_double (9801 / 100)), siprPolRawAvg = num 99\<rparr>],
          csp = []\<rparr>"
    by code_simp
qed

theorem group_averages_are_double_means_witness:
  "list_all typed_compliance
     [(createHealthyBoat 0)\<lparr>essNiprProductCompliance := num 90, isNmci := JBool True\<rparr>,
      (createHealthyBoat 0)\<lparr>essSiprProductCompliance := num 120\<rparr>,
      (createHealthyBoat 0)\<lparr>essSiprProductCompliance := JNull\<rparr>] \<and>
   (\<exists>r aggs. aggregateByISIC
       [(createHealthyBoat 0)\<lparr>essNiprProductCompliance := num 90, isNmci := JBool True\<rparr>,
      (createHealthyBoat 0)\<lparr>essSiprProductCompliance := num 120\<rparr>,
      (createHealthyBoat 0)\<lparr>essSiprProductCompliance := JNull\<rparr>] [] = Inr r \<and>
      csl r = filter (\<lambda>a. agg_tycom a = JStr ''CSL'') aggs \<and>
      csp r = filter (\<lambda>a. agg_tycom a = JStr ''CSP'') aggs \<and>
      aggregates_of
       [(createHealthyBoat 0)\<lparr>essNiprProductCompliance := num 90, isNmci := JBool True\<rparr>,
      (createHealthyBoat 0)\<lparr>essSiprProductCompliance := num 120\<rparr>,
      (createHealthyBoat 0)\<lparr>essSiprProductCompliance := JNull\<rparr>] aggs) \<and>
   list_all whole [90, 120] \<and> double_mean [90, 120] = num 100"
proof -
  let ?bs = "[(createHealthyBoat 0)\<lparr>essNiprProductCompliance := num 90, isNmci := JBool True\<rparr>,
      (createHealthyBoat 0)\<lparr>essSiprProductCompliance := num 120\<rparr>,
      (createHealthyBoat 0)\<lparr>essSiprProductCompliance := JNull\<rparr>]"
  have t: "list_all typed_compliance ?bs" by code_simp
  have "\<not> isl (aggregateByISIC ?bs [])" by code_simp
  then obtain r where r: "aggregateByISIC ?bs [] = Inr r"
    by (cases "aggregateByISIC ?bs []") simp_all
  have w: "list_all whole [90, 120]" by code_simp
  have l: "length [90, 120 :: rat] \<le> 2 ^ 40" by simp
  have m: "rounded_mean [90, 120] = num 100" by code_simp
  from group_averages_are_double_means [of ?bs "[]" r "[90, 120]"] t r w l
  have "\<exists>aggs. csl r = filter (\<lambda>a. agg_tycom a = JStr ''CSL'') aggs \<and>
              csp r = filter (\<lambda>a. agg_tycom a = JStr ''CSP'') aggs \<and>
              aggregates_of ?bs aggs"
    and "double_mean [90, 120] = rounded_mean [90, 120]" by blast+
  with t r w m show ?thesis by auto
qed

text \<open>
  A field that is absent passes the test \<open>!== null\<close>, is added and counted, and the
  average of its group is \<open>NaN\<close>. And the sums are rounded: for three boats that report the
  doubles \<open>0.1\<close>, \<open>0.2\<close> and \<open>0.3\<close> the average is \<open>0.20000000000000004\<close>, where the
  arithmetic mean of the three doubles rounds to \<open>0.2\<close>.
\<close>

theorem absent_field_gives_NaN_and_sums_round:
  "(case aggregateByISIC [(createHealthyBoat 0)\<lparr>essSiprProductCompliance := JUndefined\<rparr>] [] of
      Inr r \<Rightarrow> map siprProdCompAvg (csl r) | Inl e \<Rightarrow> []) = [JNum NaN] \<and>
   (case aggregateByISIC
        [(createHealthyBoat 0)\<lparr>essSiprProductCompliance := JNum (to_double (1 / 10))\<rparr>,
         (createHealthyBoat 0)\<lparr>essSiprProductCompliance := JNum (to_double (1 / 5))\<rparr>,
         (createHealthyBoat 0)\<lparr>essSiprProductCompliance := JNum (to_double (3 / 10))\<rparr>] [] of
      Inr r \<Rightarrow> map siprProdCompAvg (csl r) | Inl e \<Rightarrow> [])
     = [num (7205759403792795 / 36028797018963968)] \<and>
   [to_double (1 / 10), to_double (1 / 5), to_double (3 / 10)]
     = [Fin (3602879701896397 / 36028797018963968), Fin (3602879701896397 / 18014398509481984),
        Fin (5404319552844595 / 18014398509481984)] \<and>
   rounded_mean [3602879701896397 / 36028797018963968, 3602879701896397 / 18014398509481984,
                 5404319552844595 / 18014398509481984]
     = num (3602879701896397 / 18014398509481984)"
proof (intro conjI)
  show "(case aggregateByISIC [(createHealthyBoat 0)\<lparr>essSiprProductCompliance := JUndefined\<rparr>] [] of
      Inr r \<Rightarrow> map siprProdCompAvg (csl r) | Inl e \<Rightarrow> []) = [JNum NaN]"
    by code_simp
  show "(case aggregateByISIC
        [(createHealthyBoat 0)\<lparr>essSiprProductCompliance := JNum (to_double (1 / 10))\<rparr>,
         (createHealthyBoat 0)\<lparr>essSiprProductCompliance := JNum (to_double (1 / 5))\<rparr>,
         (createHealthyBoat 0)\<lparr>essSiprProductCompliance := JNum (to_double (3 / 10))\<rparr>] [] of
      Inr r \<Rightarrow> map siprProdCompAvg (csl r) | Inl e \<Rightarrow> [])
     = [num (7205759403792795 / 36028797018963968)]"
    by code_simp
  show "[to_double (1 / 10), to_double (1 / 5), to_double (3 / 10)]
     = [Fin (3602879701896397 / 36028797018963968), Fin (3602879701896397 / 18014398509481984),
        Fin (5404319552844595 / 18014398509481984)]"
    by code_simp
  show "rounded_mean [3602879701896397 / 36028797018963968, 3602879701896397 / 18014398509481984,
                 5404319552844595 / 18014398509481984]
     = num (3602879701896397 / 18014398509481984)"
    by code_simp
qed

end
